theory Spec2Isabelle
  imports Complex_Main "HOL-Library.Char_ord" "HOL-Library.List_Lexorder"
begin

section \<open>Synthetic trading-bot personas: the generator of \<^verbatim>\<open>Tools/Person.py\<close>\<close>

text \<open>
  The development follows \<^verbatim>\<open>src/Tools/Person.py\<close> and the batch loop of
  \<^verbatim>\<open>src/Tools/GenerateAIUsers.py\<close>.

  \<^item> Python floats are read as real numbers (exact arithmetic, no rounding error). Where
    a statement depends on the last digit of such a value (the floor of a product), it is
    made for every value within rounding of the exact one, see \<open>within_rounding\<close>.
  \<^item> Every call of the random library and of Faker is an explicit argument: the value
    \<open>u\<close> returned by \<^verbatim>\<open>random.random()\<close> (with \<open>0 \<le> u < 1\<close>, see \<open>unit_draw\<close>), a raw natural
    number from which an integer-valued draw is read off, the strings Faker hands out.
  \<^item> An exception of the source is a value \<open>Inl e\<close>; a \<^verbatim>\<open>while True\<close> loop that never
    leaves is the value \<open>None\<close> of a \<^theory_text>\<open>partial_function (option)\<close>.
\<close>

subsection \<open>Exceptions\<close>

datatype error = ValueError | KeyError | ZeroDivisionError

subsection \<open>Module constants\<close>

text \<open>
  \<^verbatim>\<open>TICKERS\<close>, \<^verbatim>\<open>PRICES = dict(zip(TICKERS, [...]))\<close> and
  \<^verbatim>\<open>STOCKIDS = dict(zip(TICKERS, range(1, len(TICKERS)+1)))\<close>. The three globals are
  collected in one record, so that the stages can also be read over another catalog.
\<close>

record catalog =
  TICKERS :: "string list"
  PRICES :: "string \<rightharpoonup> real"
  STOCKIDS :: "string \<rightharpoonup> int"

definition make_catalog :: "string list \<Rightarrow> real list \<Rightarrow> catalog" where
  "make_catalog ts ps =
     \<lparr> TICKERS = ts,
       PRICES = map_of (zip ts ps),
       STOCKIDS = map_of (zip ts (map int [1 ..< length ts + 1])) \<rparr>"

definition stock_tickers :: "string list" where
  "stock_tickers =
     [''MSFT'', ''NVDA'', ''AAPL'', ''AMZN'', ''GOOG'', ''META'', ''AVGO'', ''TSLA'', ''TSM'', ''WMT'',
      ''LLY'', ''V'', ''ORCL'', ''NFLX'', ''MA'', ''BAC'', ''ASML'', ''KO'', ''BABA'', ''MCD'', ''AMD'']"

definition stock_prices :: "real list" where
  "stock_prices =
     [513.71, 173.50, 213.88, 231.44, 194.08, 712.68, 290.18, 316.06, 245.6, 97.47, 812.69,
      357.04, 245.12, 1180.49, 568.22, 48.45, 711.25, 69.17, 120.03, 298.47, 166.47]"

definition stock_catalog :: catalog where
  "stock_catalog = make_catalog stock_tickers stock_prices"

subsection \<open>The username pattern and \<^verbatim>\<open>generate_username\<close>\<close>

text \<open>
  \<^verbatim>\<open>USERNAME_RE = re.compile(r"^[a-zA-Z0-9]{5,20}$")\<close>. A string of alphanumeric characters
  holds no newline, so \<^verbatim>\<open>$\<close> matches at its very end only.
\<close>

definition ascii_alnum :: "char \<Rightarrow> bool" where
  "ascii_alnum c =
     ((CHR ''a'' \<le> c \<and> c \<le> CHR ''z'') \<or> (CHR ''A'' \<le> c \<and> c \<le> CHR ''Z'')
      \<or> (CHR ''0'' \<le> c \<and> c \<le> CHR ''9''))"

definition USERNAME_RE_match :: "string \<Rightarrow> bool" where
  "USERNAME_RE_match s = (5 \<le> length s \<and> length s \<le> 20 \<and> list_all ascii_alnum s)"

text \<open>
  One pass of the loop body on the candidate \<open>raw\<close>: \<open>None\<close> where the source runs
  \<^verbatim>\<open>continue\<close> or falls out of the \<^verbatim>\<open>if\<close>, \<open>Some cleaned\<close> where it returns.
  \<^verbatim>\<open>str.isalnum\<close> follows Unicode; it is the parameter \<open>isalnum\<close>.
\<close>

definition try_username :: "(char \<Rightarrow> bool) \<Rightarrow> string set \<Rightarrow> string \<Rightarrow> string option" where
  "try_username isalnum usernames raw =
     (let cleaned = filter isalnum raw in
      if length cleaned < 5 then None
      else
        let cleaned = take 20 cleaned in
        if USERNAME_RE_match cleaned \<and> cleaned \<notin> usernames then Some cleaned else None)"

text \<open>
  \<^verbatim>\<open>generate_username()\<close>: \<open>user_name i\<close> is what the \<open>i\<close>-th call of
  \<^verbatim>\<open>fake.user_name()\<close> returns, \<open>usernames\<close> is \<^verbatim>\<open>Person.usernames\<close>; the result is the
  handle and the updated set.
\<close>

partial_function (option) generate_username ::
  "(char \<Rightarrow> bool) \<Rightarrow> (nat \<Rightarrow> string) \<Rightarrow> string set \<Rightarrow> nat \<Rightarrow> (string \<times> string set) option"
where
  "generate_username isalnum user_name usernames i =
     (case try_username isalnum usernames (user_name i) of
        None \<Rightarrow> generate_username isalnum user_name usernames (Suc i)
      | Some cleaned \<Rightarrow> Some (cleaned, insert cleaned usernames))"

subsection \<open>Conversions and operators of Python\<close>

text \<open>\<^verbatim>\<open>int(x)\<close> of a float truncates toward zero.\<close>

definition py_int :: "real \<Rightarrow> int" where
  "py_int x = (if 0 \<le> x then \<lfloor>x\<rfloor> else \<lceil>x\<rceil>)"

text \<open>\<^verbatim>\<open>x // y\<close> on floats: the floor of the quotient, still a float.\<close>

definition py_floordiv :: "real \<Rightarrow> real \<Rightarrow> error + real" where
  "py_floordiv x y = (if y = 0 then Inl ZeroDivisionError else Inr (of_int \<lfloor>x / y\<rfloor>))"

definition py_truediv :: "real \<Rightarrow> real \<Rightarrow> error + real" where
  "py_truediv x y = (if y = 0 then Inl ZeroDivisionError else Inr (x / y))"


text \<open>Sequencing of two steps, the first of which may raise.\<close>

fun then_do :: "error + 'a \<Rightarrow> ('a \<Rightarrow> error + 'b) \<Rightarrow> error + 'b" where
  "then_do (Inl e) f = Inl e"
| "then_do (Inr x) f = f x"

subsection \<open>The random library\<close>

text \<open>\<^verbatim>\<open>random.random()\<close> returns a float \<open>u\<close> with \<open>0 \<le> u < 1\<close>.\<close>

definition unit_draw :: "real \<Rightarrow> bool" where
  "unit_draw u = (0 \<le> u \<and> u < 1)"

text \<open>\<^verbatim>\<open>random.uniform(a, b)\<close> is \<^verbatim>\<open>a + (b - a) * random()\<close>.\<close>

definition uniform :: "real \<Rightarrow> real \<Rightarrow> real \<Rightarrow> real" where
  "uniform a b u = a + (b - a) * u"

text \<open>
  \<^verbatim>\<open>random.randint(a, b)\<close>: an integer of \<open>[a, b]\<close>, read off the raw draw \<open>r\<close>;
  \<^verbatim>\<open>ValueError\<close> on an empty range.
\<close>

definition randint :: "int \<Rightarrow> int \<Rightarrow> nat \<Rightarrow> error + int" where
  "randint a b r = (if b < a then Inl ValueError else Inr (a + int (r mod nat (b - a + 1))))"

text \<open>\<^verbatim>\<open>random.choice(seq)\<close>; its one call is on the literal \<^verbatim>\<open>[1, 2, 3, 4]\<close>.\<close>

definition choice :: "'a list \<Rightarrow> nat \<Rightarrow> 'a" where
  "choice seq r = seq ! (r mod length seq)"

text \<open>
  \<^verbatim>\<open>random.sample(population, k)\<close>: \<open>k\<close> elements at distinct positions, in the order
  drawn; each raw draw \<open>rs 0, rs 1, \<dots>\<close> picks one of the positions that are left.
  \<^verbatim>\<open>ValueError\<close> when \<open>k\<close> is negative or larger than the population.
\<close>

fun sample_from :: "'a list \<Rightarrow> nat \<Rightarrow> (nat \<Rightarrow> nat) \<Rightarrow> 'a list" where
  "sample_from pop 0 rs = []"
| "sample_from pop (Suc k) rs =
     (let i = rs 0 mod length pop
      in pop ! i # sample_from (take i pop @ drop (Suc i) pop) k (\<lambda>n. rs (Suc n)))"

definition sample :: "'a list \<Rightarrow> int \<Rightarrow> (nat \<Rightarrow> nat) \<Rightarrow> error + 'a list" where
  "sample pop k rs =
     (if k < 0 \<or> int (length pop) < k then Inl ValueError
      else Inr (sample_from pop (nat k) rs))"

subsection \<open>Distribution helpers\<close>

definition clamp01 :: "real \<Rightarrow> real" where
  "clamp01 x = (if x < 0 then 0 else if x > 1 then 1 else x)"

text \<open>\<^verbatim>\<open>skewed01(skew)\<close>: \<^verbatim>\<open>u ** skew\<close> for the draw \<open>u\<close> of \<^verbatim>\<open>random.random()\<close>.\<close>

definition skewed01 :: "real \<Rightarrow> real \<Rightarrow> real" where
  "skewed01 skew u = u powr skew"

text \<open>\<^verbatim>\<open>jitter(x, rel)\<close>: \<open>u\<close> is the draw inside \<^verbatim>\<open>random.uniform(-rel, rel)\<close>.\<close>

definition jitter :: "real \<Rightarrow> real \<Rightarrow> real \<Rightarrow> real" where
  "jitter x rel u = (let factor = 1 + uniform (- rel) rel u in x * factor)"

definition sample_log_balance :: "real \<Rightarrow> real \<Rightarrow> real \<Rightarrow> int" where
  "sample_log_balance min_base max_factor u = py_int (min_base * (max_factor powr u))"

subsection \<open>The class state and the attributes of a \<^verbatim>\<open>Person\<close>\<close>

text \<open>The class variables \<^verbatim>\<open>Person.idx\<close> and \<^verbatim>\<open>Person.usernames\<close>.\<close>

record registry =
  idx :: int
  usernames :: "string set"

text \<open>
  The attributes of \<^verbatim>\<open>self\<close>, grouped by the method that assigns them, and next to each
  group the draws that the method makes, in the order of the source.
\<close>

record identity =
  user_id :: int
  full_name :: string
  username :: string
  email :: string
  birthdate :: string

record identity_draws =
  fake_name :: string
  fake_user_name :: "nat \<Rightarrow> string"
  fake_free_email_domain :: string
  fake_date_of_birth :: string

record trade_properties =
  aggressive :: real
  AggressivenessPrc :: real
  online_prob :: real
  interval_seconds :: int
  trade_prob :: real
  strategy :: int

record trade_draws =
  u_base_agg :: real
  u_aggressive :: real
  u_base_online :: real
  u_online_prob :: real
  u_interval :: real
  u_trade_prob :: real
  r_strategy :: nat

record portfolio =
  balance :: int
  max_cash :: real
  min_cash :: real
  min_stocks :: int
  max_stocks :: int
  watch_ids :: "int list"
  holdings :: "(string \<times> int) list"

record portfolio_draws =
  u_balance :: real
  u_max_cash :: real
  u_min_cash :: real
  r_min_stocks :: nat
  r_max_stocks :: nat
  r_watchlist_extra :: nat
  r_watchlist :: "nat \<Rightarrow> nat"
  r_n_stocks :: nat
  r_portfolio :: "nat \<Rightarrow> nat"

record order_types =
  use_market :: real
  use_slip :: real
  buy_bias :: real

record order_draws =
  u_use_market :: real
  u_use_slip :: real
  u_buy_bias :: real

record trade_limits =
  slippage_tolerance :: real
  min_limit_offset :: real
  max_limit_offset :: real
  per_pos_max :: real
  min_trade_amount :: real
  max_trade_amount :: real
  max_daily_trades :: int
  max_orders :: int

record limit_draws =
  u_slippage_tolerance :: real
  u_max_limit :: real
  u_min_limit :: real
  u_per_pos_max :: real
  u_min_trade_amount :: real
  u_max_trade_amount :: real
  u_max_daily_trades :: real
  u_max_orders :: real

record person =
  seed :: int
  ident :: identity
  trade :: trade_properties
  pfolio :: portfolio
  orders :: order_types
  limits :: trade_limits

record person_draws =
  r_seed :: nat
  identity_d :: identity_draws
  trade_d :: trade_draws
  portfolio_d :: portfolio_draws
  order_d :: order_draws
  limit_d :: limit_draws

subsection \<open>\<^verbatim>\<open>Person.Identity\<close>\<close>

text \<open>
  The id is read off \<^verbatim>\<open>Person.idx\<close>, which is incremented before the username loop runs.
  \<open>None\<close>: the loop of \<open>generate_username\<close> never returns.
\<close>

definition Identity ::
  "(char \<Rightarrow> bool) \<Rightarrow> identity_draws \<Rightarrow> registry \<Rightarrow> (identity \<times> registry) option" where
  "Identity isalnum d st =
     (let uid = idx st; st1 = st\<lparr>idx := idx st + 1\<rparr> in
      case generate_username isalnum (fake_user_name d) (usernames st1) 0 of
        None \<Rightarrow> None
      | Some (name, used) \<Rightarrow>
          Some (\<lparr> user_id = uid,
                  full_name = fake_name d,
                  username = name,
                  email = name @ ''@'' @ fake_free_email_domain d,
                  birthdate = fake_date_of_birth d \<rparr>,
                st1\<lparr>usernames := used\<rparr>))"

subsection \<open>\<^verbatim>\<open>Person.TradeProperties\<close>\<close>

definition TradeProperties :: "trade_draws \<Rightarrow> trade_properties" where
  "TradeProperties d =
     (let base_agg = skewed01 1.3 (u_base_agg d);
          aggressive = clamp01 (jitter base_agg 0.10 (u_aggressive d));
          base_online = 0.2 + 0.8 * skewed01 0.7 (u_base_online d);
          online_prob = clamp01 (jitter base_online 0.10 (u_online_prob d));
          base_interval = 20.0 - 12.0 * aggressive * aggressive;
          interval_seconds = py_int (max 1 (jitter base_interval 0.15 (u_interval d)));
          base_trade_prob = 0.10 + 0.5 * aggressive * aggressive;
          trade_prob = clamp01 (jitter base_trade_prob 0.15 (u_trade_prob d))
      in \<lparr> aggressive = aggressive,
           AggressivenessPrc = aggressive,
           online_prob = online_prob,
           interval_seconds = interval_seconds,
           trade_prob = trade_prob,
           strategy = choice [1, 2, 3, 4] (r_strategy d) \<rparr>)"

subsection \<open>\<^verbatim>\<open>Person.Portfolio\<close>\<close>

text \<open>
  In the stages after \<^verbatim>\<open>TradeProperties\<close> the argument \<open>agg\<close> is \<^verbatim>\<open>self.aggressive\<close>, and
  \<open>n_max\<close> in \<^verbatim>\<open>TradeLimits\<close> is \<^verbatim>\<open>self.max_stocks\<close>.
\<close>

text \<open>The three bands of \<^verbatim>\<open>min_stocks\<close> and \<^verbatim>\<open>max_stocks\<close>.\<close>

definition stock_bounds :: "real \<Rightarrow> nat \<Rightarrow> nat \<Rightarrow> error + int \<times> int" where
  "stock_bounds agg r1 r2 =
     (if agg < 0.3 then
        then_do (randint 1 4 r1) (\<lambda>lo. then_do (randint 6 12 r2) (\<lambda>hi. Inr (lo, hi)))
      else if agg < 0.6 then
        then_do (randint 3 5 r1) (\<lambda>lo. then_do (randint 8 15 r2) (\<lambda>hi. Inr (lo, hi)))
      else
        then_do (randint 5 8 r1) (\<lambda>lo. then_do (randint 12 20 r2) (\<lambda>hi. Inr (lo, hi))))"

text \<open>\<^verbatim>\<open>d[s] for s in xs\<close>: the first missing key raises \<^verbatim>\<open>KeyError\<close>.\<close>

fun lookup_all :: "('k \<rightharpoonup> 'v) \<Rightarrow> 'k list \<Rightarrow> error + 'v list" where
  "lookup_all m [] = Inr []"
| "lookup_all m (k # ks) =
     (case m k of
        None \<Rightarrow> Inl KeyError
      | Some v \<Rightarrow> then_do (lookup_all m ks) (\<lambda>vs. Inr (v # vs)))"

text \<open>
  \<^verbatim>\<open>balance * (1 - (min_cash*2 + max_cash)/3) // n_stocks\<close>: \<^verbatim>\<open>*\<close> and \<^verbatim>\<open>//\<close> associate to
  the left, so the product is floor-divided by \<^verbatim>\<open>n_stocks\<close>.
\<close>

definition amount_per_stock :: "int \<Rightarrow> real \<Rightarrow> real \<Rightarrow> int \<Rightarrow> error + real" where
  "amount_per_stock bal mn mx n_stocks =
     py_floordiv (of_int bal * (1 - (mn * 2 + mx) / 3)) (of_int n_stocks)"

text \<open>\<^verbatim>\<open>{ s: int(amount_per_stock // PRICES[s]) for s in portfolio }\<close>, in insertion order.\<close>

fun shares_of :: "(string \<rightharpoonup> real) \<Rightarrow> real \<Rightarrow> string list \<Rightarrow> error + (string \<times> int) list" where
  "shares_of prices amount [] = Inr []"
| "shares_of prices amount (s # ss) =
     (case prices s of
        None \<Rightarrow> Inl KeyError
      | Some p \<Rightarrow>
          then_do (py_floordiv amount p) (\<lambda>q.
          then_do (shares_of prices amount ss) (\<lambda>rest. Inr ((s, py_int q) # rest))))"

definition Portfolio :: "catalog \<Rightarrow> real \<Rightarrow> portfolio_draws \<Rightarrow> error + portfolio" where
  "Portfolio cat agg d =
     (let balance = sample_log_balance 10000 50 (u_balance d);
          base_max_cash = 0.50 - 0.30 * agg;
          max_cash = clamp01 (jitter base_max_cash 0.15 (u_max_cash d));
          min_cash = max_cash * uniform 0.30 0.60 (u_min_cash d)
      in
      then_do (stock_bounds agg (r_min_stocks d) (r_max_stocks d)) (\<lambda>(min_stocks, max_stocks).
      then_do (randint 3 8 (r_watchlist_extra d)) (\<lambda>watchlist_extra.
      let watchlist_size = min (int (length (TICKERS cat))) (max_stocks + watchlist_extra) in
      then_do (sample (TICKERS cat) watchlist_size (r_watchlist d)) (\<lambda>watchlist.
      then_do (lookup_all (STOCKIDS cat) watchlist) (\<lambda>ids.
      let watch_ids = sort ids in
      then_do (randint min_stocks max_stocks (r_n_stocks d)) (\<lambda>n_stocks.
      then_do (sample watchlist n_stocks (r_portfolio d)) (\<lambda>picked.
      let portfolio = sort picked in
      then_do (amount_per_stock balance min_cash max_cash n_stocks) (\<lambda>amount.
      then_do (shares_of (PRICES cat) amount portfolio) (\<lambda>holdings.
      Inr \<lparr> balance = balance,
            max_cash = max_cash,
            min_cash = min_cash,
            min_stocks = min_stocks,
            max_stocks = max_stocks,
            watch_ids = watch_ids,
            holdings = holdings \<rparr>)))))))))"

subsection \<open>\<^verbatim>\<open>Person.OrderTypes\<close>\<close>

definition OrderTypes :: "real \<Rightarrow> order_draws \<Rightarrow> order_types" where
  "OrderTypes agg d =
     (let use_market = 0.05 + 0.20 * skewed01 1.5 (u_use_market d);
          use_slip = 0.50 + 0.40 * skewed01 0.5 (u_use_slip d);
          base_buy_bias = 0.50 + 0.10 * (agg - 0.5);
          buy_bias = clamp01 (jitter base_buy_bias 0.10 (u_buy_bias d))
      in \<lparr> use_market = use_market,
           use_slip = use_slip,
           buy_bias = max 0.40 (min 0.60 buy_bias) \<rparr>)"

subsection \<open>\<^verbatim>\<open>Person.TradeLimits\<close>\<close>

definition TradeLimits :: "real \<Rightarrow> int \<Rightarrow> limit_draws \<Rightarrow> error + trade_limits" where
  "TradeLimits agg n_max d =
     (let base_slip_tol = 0.005 + 0.025 * agg;
          slippage_tolerance = clamp01 (jitter base_slip_tol 0.20 (u_slippage_tolerance d));
          base_max_limit = 0.02 + 0.03 * agg;
          max_limit = clamp01 (jitter base_max_limit 0.20 (u_max_limit d));
          min_limit = max_limit * uniform 0.02 0.30 (u_min_limit d);
          base_per_pos = 0.08 + 0.22 * agg
      in
      then_do (py_truediv 1.0 (of_int n_max)) (\<lambda>portfolio_max.
      let per_pos_max0 = clamp01 (jitter base_per_pos 0.15 (u_per_pos_max d));
          per_pos_max = min per_pos_max0 portfolio_max;
          min_trade_amount = per_pos_max * uniform 0.10 0.30 (u_min_trade_amount d);
          max_trade_amount = per_pos_max * uniform 0.40 0.80 (u_max_trade_amount d);
          base_trade = py_int (100 + 300 * agg);
          max_daily_trades = max 100 (py_int (jitter (of_int base_trade) 0.20 (u_max_daily_trades d)));
          base_open_orders = py_int (10 + 40 * agg);
          max_orders = max 10 (py_int (jitter (of_int base_open_orders) 0.20 (u_max_orders d)))
      in Inr \<lparr> slippage_tolerance = slippage_tolerance,
               min_limit_offset = clamp01 min_limit,
               max_limit_offset = clamp01 max_limit,
               per_pos_max = per_pos_max,
               min_trade_amount = min_trade_amount,
               max_trade_amount = max_trade_amount,
               max_daily_trades = max_daily_trades,
               max_orders = max_orders \<rparr>))"

subsection \<open>\<^verbatim>\<open>Person.__init__\<close> and the batch of \<^verbatim>\<open>generate_aiuser_excel\<close>\<close>

text \<open>
  The five methods in the order of \<^verbatim>\<open>__init__\<close>. The class state is returned also when a
  later method raises; \<open>None\<close> means that the username loop does not return.
\<close>

definition Person_init ::
  "catalog \<Rightarrow> (char \<Rightarrow> bool) \<Rightarrow> person_draws \<Rightarrow> registry \<Rightarrow> ((error + person) \<times> registry) option" where
  "Person_init cat isalnum d st =
     (case randint 1000000 10000000 (r_seed d) of
        Inl e \<Rightarrow> Some (Inl e, st)
      | Inr sd \<Rightarrow>
          (case Identity isalnum (identity_d d) st of
             None \<Rightarrow> None
           | Some (idn, st') \<Rightarrow>
               (let tp = TradeProperties (trade_d d) in
                Some (then_do (Portfolio cat (aggressive tp) (portfolio_d d)) (\<lambda>pf.
                      let ot = OrderTypes (aggressive tp) (order_d d) in
                      then_do (TradeLimits (aggressive tp) (max_stocks pf) (limit_d d)) (\<lambda>tl.
                      Inr \<lparr> seed = sd, ident = idn, trade = tp, pfolio = pf,
                            orders = ot, limits = tl \<rparr>)),
                      st'))))"

text \<open>
  The loop \<^verbatim>\<open>for _ in range(num_people): p = Person(); ...\<close>: one element of \<open>ds\<close> for each
  pass; the persons are collected in the order in which their rows are appended.
\<close>

fun people_loop ::
  "catalog \<Rightarrow> (char \<Rightarrow> bool) \<Rightarrow> person_draws list \<Rightarrow> registry
     \<Rightarrow> ((error + person list) \<times> registry) option" where
  "people_loop cat isalnum [] st = Some (Inr [], st)"
| "people_loop cat isalnum (d # ds) st =
     (case Person_init cat isalnum d st of
        None \<Rightarrow> None
      | Some (Inl e, st') \<Rightarrow> Some (Inl e, st')
      | Some (Inr p, st') \<Rightarrow>
          (case people_loop cat isalnum ds st' of
             None \<Rightarrow> None
           | Some (Inl e, st'') \<Rightarrow> Some (Inl e, st'')
           | Some (Inr ps, st'') \<Rightarrow> Some (Inr (p # ps), st'')))"

text \<open>
  \<^verbatim>\<open>generate_aiuser_excel\<close> without the workbook: \<^verbatim>\<open>Person.idx = 1\<close>, then the loop.
  \<open>draws k\<close> holds the draws of the \<open>k\<close>-th pass.
\<close>

definition generate_aiuser_excel ::
  "catalog \<Rightarrow> (char \<Rightarrow> bool) \<Rightarrow> int \<Rightarrow> (nat \<Rightarrow> person_draws) \<Rightarrow> registry
     \<Rightarrow> ((error + person list) \<times> registry) option" where
  "generate_aiuser_excel cat isalnum num_people draws st =
     people_loop cat isalnum (map draws [0 ..< nat num_people]) (st\<lparr>idx := 1\<rparr>)"

text \<open>
  Whether the username loops of the persons of a batch all return: \<open>used\<close> is
  \<^verbatim>\<open>Person.usernames\<close> when the loop of the first person starts, and every handle issued
  is passed on to the persons after it.
\<close>

fun usernames_found :: "(char \<Rightarrow> bool) \<Rightarrow> person_draws list \<Rightarrow> string set \<Rightarrow> bool" where
  "usernames_found isalnum [] used = True"
| "usernames_found isalnum (d # ds) used =
     (case generate_username isalnum (fake_user_name (identity_d d)) used 0 of
        None \<Rightarrow> False
      | Some (h, used') \<Rightarrow> usernames_found isalnum ds used')"

section \<open>Example inputs\<close>

text \<open>A supplier of \<^verbatim>\<open>fake.user_name()\<close> whose candidates all have four characters.\<close>

definition only_short :: "nat \<Rightarrow> string" where
  "only_short i = ''abcd''"

text \<open>A supplier whose first candidate is too short and whose later ones are usable.\<close>

definition two_names :: "nat \<Rightarrow> string" where
  "two_names i = (if i = 0 then ''abcd'' else ''alice.smith'')"

text \<open>
  Raw draws for \<^verbatim>\<open>random.sample\<close>: \<open>ko_first\<close> picks position 17 (KO in the built-in
  catalog) and then always the first position left; \<open>first_left\<close> always picks the first
  position left.
\<close>

definition ko_first :: "nat \<Rightarrow> nat" where
  "ko_first n = (if n = 0 then 17 else 0)"

definition first_left :: "nat \<Rightarrow> nat" where
  "first_left n = 0"

text \<open>
  The draws of one \<^verbatim>\<open>Person()\<close>: aggressiveness 0, no jitter on the cash reserve
  (\<^verbatim>\<open>max_cash = 0.5\<close>, \<^verbatim>\<open>min_cash = 0.15\<close>), balance 10000, two held instruments.
\<close>

definition example_draws :: person_draws where
  "example_draws =
     \<lparr> r_seed = 0,
       identity_d =
         \<lparr> fake_name = ''Alice Smith'', fake_user_name = two_names,
           fake_free_email_domain = ''example.org'', fake_date_of_birth = ''1990-01-01'' \<rparr>,
       trade_d =
         \<lparr> u_base_agg = 0, u_aggressive = 1/2, u_base_online = 0, u_online_prob = 1/2,
           u_interval = 7/16, u_trade_prob = 1/2, r_strategy = 0 \<rparr>,
       portfolio_d =
         \<lparr> u_balance = 0, u_max_cash = 1/2, u_min_cash = 0, r_min_stocks = 0, r_max_stocks = 0,
           r_watchlist_extra = 0, r_watchlist = ko_first, r_n_stocks = 1,
           r_portfolio = first_left \<rparr>,
       order_d = \<lparr> u_use_market = 0, u_use_slip = 0, u_buy_bias = 1/2 \<rparr>,
       limit_d =
         \<lparr> u_slippage_tolerance = 1/2, u_max_limit = 1/2, u_min_limit = 1/2,
           u_per_pos_max = 1/2, u_min_trade_amount = 1/2, u_max_trade_amount = 1/2,
           u_max_daily_trades = 1/2, u_max_orders = 1/2 \<rparr> \<rparr>"

text \<open>The class state of a fresh interpreter.\<close>

definition fresh_registry :: registry where
  "fresh_registry = \<lparr> idx = 1, usernames = {} \<rparr>"

text \<open>The catalog of three instruments priced 100, 200 and 50.\<close>

definition small_catalog :: catalog where
  "small_catalog = make_catalog [''AAA'', ''BBB'', ''CCC''] [100, 200, 50]"

text \<open>The person that a call of \<^verbatim>\<open>Person()\<close> hands back, if it hands one back.\<close>

definition completed :: "((error + person) \<times> registry) option \<Rightarrow> person option" where
  "completed r = (case r of Some (Inr p, st) \<Rightarrow> Some p | _ \<Rightarrow> None)"

text \<open>
  What a batch hands back, if it runs to its end: the persons, in order, and the class
  state it leaves behind.
\<close>

definition batch_people :: "((error + person list) \<times> registry) option \<Rightarrow> person list option" where
  "batch_people r = (case r of Some (Inr ps, st) \<Rightarrow> Some ps | _ \<Rightarrow> None)"

definition batch_state :: "((error + person list) \<times> registry) option \<Rightarrow> registry option" where
  "batch_state r = map_option snd r"

text \<open>
  A supplier that offers \<^verbatim>\<open>alice.smith\<close> first and \<^verbatim>\<open>bob.jones77\<close> from then on, and the
  draws of a batch: the first person is the example person, every later one differs from
  it in this supplier only.
\<close>

definition later_names :: "nat \<Rightarrow> string" where
  "later_names i = (if i = 0 then ''alice.smith'' else ''bob.jones77'')"

definition with_names :: "(nat \<Rightarrow> string) \<Rightarrow> person_draws" where
  "with_names f = example_draws \<lparr> identity_d := (identity_d example_draws) \<lparr> fake_user_name := f \<rparr> \<rparr>"

definition batch_draws :: "nat \<Rightarrow> person_draws" where
  "batch_draws k = (if k = 0 then with_names two_names else with_names later_names)"

definition second_batch_draws :: "nat \<Rightarrow> person_draws" where
  "second_batch_draws k = with_names later_names"

text \<open>The class state after a first batch of one person, \<^verbatim>\<open>alicesmith\<close>.\<close>

definition after_first_batch :: registry where
  "after_first_batch = \<lparr> idx = 2, usernames = {''alicesmith''} \<rparr>"

section \<open>The formulas as the specification words them\<close>




section \<open>The username loop\<close>

lemma try_username_Some:
  assumes "try_username isalnum used raw = Some h"
  shows "USERNAME_RE_match h \<and> h \<notin> used \<and> h = take 20 (filter isalnum raw)"
  using assms by (auto simp: try_username_def Let_def split: if_splits)

lemma try_username_short:
  assumes "length raw < 5"
  shows "try_username isalnum used raw = None"
proof -
  have "length (filter isalnum raw) < 5"
    using assms length_filter_le[of isalnum raw] by linarith
  then show ?thesis by (simp add: try_username_def)
qed

lemma generate_username_Some:
  assumes "generate_username isalnum f used i = Some r"
  shows "\<exists>k\<ge>i. try_username isalnum used (f k) = Some (fst r) \<and> snd r = insert (fst r) used"
proof (rule generate_username.raw_induct
    [where P = "\<lambda>isalnum f used i r.
       \<exists>k\<ge>i. try_username isalnum used (f k) = Some (fst r) \<and> snd r = insert (fst r) used",
     OF _ assms])
  fix g :: "(char \<Rightarrow> bool) \<Rightarrow> (nat \<Rightarrow> string) \<Rightarrow> string set \<Rightarrow> nat \<Rightarrow> (string \<times> string set) option"
  fix isalnum f used i r
  assume IH: "\<And>isalnum f used i r. g isalnum f used i = Some r \<Longrightarrow>
      \<exists>k\<ge>i. try_username isalnum used (f k) = Some (fst r) \<and> snd r = insert (fst r) used"
  assume body: "(case try_username isalnum used (f i) of
        None \<Rightarrow> g isalnum f used (Suc i)
      | Some cleaned \<Rightarrow> Some (cleaned, insert cleaned used)) = Some r"
  show "\<exists>k\<ge>i. try_username isalnum used (f k) = Some (fst r) \<and> snd r = insert (fst r) used"
  proof (cases "try_username isalnum used (f i)")
    case None
    with body have "g isalnum f used (Suc i) = Some r" by simp
    from IH[OF this] obtain k where k: "Suc i \<le> k"
      "try_username isalnum used (f k) = Some (fst r) \<and> snd r = insert (fst r) used"
      by (elim exE conjE) (rule that, simp_all)
    from k(1) have "i \<le> k" by simp
    with k(2) show ?thesis by (intro exI[of _ k] conjI) simp_all
  next
    case (Some h)
    with body have "r = (h, insert h used)" by simp
    with Some have "try_username isalnum used (f i) = Some (fst r) \<and> snd r = insert (fst r) used"
      by simp
    then show ?thesis by (intro exI[of _ i] conjI) simp_all
  qed
qed

lemma generate_username_returns:
  assumes "try_username isalnum used (f k) \<noteq> None" and "i \<le> k"
  shows "generate_username isalnum f used i \<noteq> None"
  using assms
proof (induction "k - i" arbitrary: i)
  case 0
  then have "k = i" by simp
  with 0 show ?case by (subst generate_username.simps) (auto split: option.splits)
next
  case (Suc n)
  then have "generate_username isalnum f used (Suc i) \<noteq> None" by auto
  then show ?case by (subst generate_username.simps) (auto split: option.splits)
qed

text \<open>
  C1 (as the source has it). \<^verbatim>\<open>generate_username\<close> has no bound on its attempts and raises
  nothing: it never returns exactly when no candidate from the current one on passes the
  filter, and whenever it returns, the handle matches \<^verbatim>\<open>USERNAME_RE\<close> (alphanumeric, 5 to 20
  characters), was not in \<^verbatim>\<open>Person.usernames\<close> before and is in it afterwards.
\<close>

theorem generate_username_outcome:
  "(generate_username isalnum f used i = None \<longleftrightarrow> (\<forall>k\<ge>i. try_username isalnum used (f k) = None))
   \<and> (\<forall>h used'. generate_username isalnum f used i = Some (h, used') \<longrightarrow>
          USERNAME_RE_match h \<and> h \<notin> used \<and> used' = insert h used)"
proof (intro conjI allI impI iffI)
  fix k assume "generate_username isalnum f used i = None" and "i \<le> k"
  then show "try_username isalnum used (f k) = None"
    using generate_username_returns[of isalnum used f k i] by blast
next
  assume none: "\<forall>k\<ge>i. try_username isalnum used (f k) = None"
  show "generate_username isalnum f used i = None"
  proof (cases "generate_username isalnum f used i")
    case (Some r)
    from generate_username_Some[OF this] none show ?thesis by auto
  qed
next
  fix h used' assume r: "generate_username isalnum f used i = Some (h, used')"
  from generate_username_Some[OF r] obtain k where
    k: "try_username isalnum used (f k) = Some h" and u: "used' = insert h used" by auto
  from try_username_Some[OF k] have "USERNAME_RE_match h" and "h \<notin> used" by blast+
  with u show "USERNAME_RE_match h" "h \<notin> used" "used' = insert h used" by blast+
qed

theorem generate_username_outcome_witness:
  "try_username ascii_alnum {} (two_names 1) = Some ''alicesmith''
   \<and> generate_username ascii_alnum two_names {} 0 \<noteq> None"
proof -
  have t: "try_username ascii_alnum {} (two_names 1) = Some ''alicesmith''"
    by (simp add: two_names_def try_username_def ascii_alnum_def USERNAME_RE_match_def less_eq_char_def)
  have "\<not> (\<forall>k\<ge>0. try_username ascii_alnum {} (two_names k) = None)"
    using t by (metis option.distinct(1) zero_le)
  with generate_username_outcome[of ascii_alnum two_names "{}" 0] t show ?thesis by blast
qed

text \<open>
  C1 fails as stated: with a supplier that yields only four-character candidates the loop
  neither returns a handle nor raises; it runs forever.
\<close>

theorem generate_username_only_short_diverges:
  "generate_username ascii_alnum only_short {} 0 = None"
proof (cases "generate_username ascii_alnum only_short {} 0")
  case None
  then show ?thesis .
next
  case (Some r)
  from generate_username_Some[OF this] obtain k
    where "try_username ascii_alnum {} (only_short k) = Some (fst r)" by blast
  moreover have "try_username ascii_alnum {} (only_short k) = None"
    by (rule try_username_short) (simp add: only_short_def)
  ultimately show ?thesis by simp
qed

section \<open>Facts about the random library\<close>

lemma then_do_Inr_iff: "then_do m f = Inr y \<longleftrightarrow> (\<exists>x. m = Inr x \<and> f x = Inr y)"
  by (cases m) simp_all

lemma randint_Inr:
  assumes "randint a b r = Inr v"
  shows "a \<le> v \<and> v \<le> b"
proof -
  from assms have ab: "a \<le> b" and v: "v = a + int (r mod nat (b - a + 1))"
    by (auto simp: randint_def split: if_splits)
  from ab have "r mod nat (b - a + 1) < nat (b - a + 1)" by simp
  with ab v show ?thesis by linarith
qed

lemma randint_total:
  assumes "a \<le> b"
  shows "\<exists>v. randint a b r = Inr v"
  using assms by (simp add: randint_def)

text \<open>Every integer of the range is the value of some raw draw.\<close>

lemma randint_any:
  assumes "a \<le> v" and "v \<le> b"
  shows "randint a b (nat (v - a)) = Inr v"
proof -
  from assms have "nat (v - a) < nat (b - a + 1)" by simp
  then have "nat (v - a) mod nat (b - a + 1) = nat (v - a)" by simp
  with assms show ?thesis by (simp add: randint_def)
qed

lemma length_sample_from:
  "k \<le> length pop \<Longrightarrow> length (sample_from pop k rs) = k"
proof (induction k arbitrary: pop rs)
  case 0
  show ?case by simp
next
  case (Suc k)
  let ?i = "rs 0 mod length pop"
  from Suc.prems have pos: "0 < length pop" by (cases pop) simp_all
  then have i: "?i < length pop" by simp
  then have "length (take ?i pop @ drop (Suc ?i) pop) = length pop - 1" by simp
  with Suc.prems have "k \<le> length (take ?i pop @ drop (Suc ?i) pop)" by simp
  from Suc.IH[OF this] show ?case by (simp add: Let_def)
qed

lemma set_sample_from:
  "k \<le> length pop \<Longrightarrow> set (sample_from pop k rs) \<subseteq> set pop"
proof (induction k arbitrary: pop rs)
  case 0
  show ?case by simp
next
  case (Suc k)
  let ?i = "rs 0 mod length pop"
  let ?rest = "take ?i pop @ drop (Suc ?i) pop"
  from Suc.prems have pos: "0 < length pop" by (cases pop) simp_all
  then have i: "?i < length pop" by simp
  then have "length ?rest = length pop - 1" by simp
  with Suc.prems have "k \<le> length ?rest" by simp
  from Suc.IH[OF this] have "set (sample_from ?rest k (\<lambda>n. rs (Suc n))) \<subseteq> set ?rest" .
  moreover have "set ?rest \<subseteq> set pop"
    using set_take_subset[of ?i pop] set_drop_subset[of "Suc ?i" pop] by auto
  moreover from i have "pop ! ?i \<in> set pop" by simp
  ultimately show ?case by (auto simp: Let_def)
qed

lemma distinct_sample_from:
  "k \<le> length pop \<Longrightarrow> distinct pop \<Longrightarrow> distinct (sample_from pop k rs)"
proof (induction k arbitrary: pop rs)
  case 0
  show ?case by simp
next
  case (Suc k)
  let ?i = "rs 0 mod length pop"
  let ?rest = "take ?i pop @ drop (Suc ?i) pop"
  from Suc.prems(1) have pos: "0 < length pop" by (cases pop) simp_all
  then have i: "?i < length pop" by simp
  then have "length ?rest = length pop - 1" by simp
  with Suc.prems have k: "k \<le> length ?rest" by simp
  from i have pop: "pop = take ?i pop @ pop ! ?i # drop (Suc ?i) pop"
    by (simp add: id_take_nth_drop)
  from Suc.prems(2) have "distinct (take ?i pop @ pop ! ?i # drop (Suc ?i) pop)"
    using pop by simp
  then have d: "distinct ?rest" and notin: "pop ! ?i \<notin> set ?rest" by auto
  from Suc.IH[OF k d] have "distinct (sample_from ?rest k (\<lambda>n. rs (Suc n)))" .
  moreover from set_sample_from[OF k] notin
  have "pop ! ?i \<notin> set (sample_from ?rest k (\<lambda>n. rs (Suc n)))" by blast
  ultimately show ?case by (simp add: Let_def)
qed

lemma sample_Inr:
  assumes "sample pop k rs = Inr xs"
  shows "0 \<le> k \<and> k \<le> int (length pop) \<and> int (length xs) = k \<and> set xs \<subseteq> set pop"
proof -
  from assms have k: "0 \<le> k" "k \<le> int (length pop)" and xs: "xs = sample_from pop (nat k) rs"
    by (auto simp: sample_def split: if_splits)
  from k have n: "nat k \<le> length pop" by simp
  from length_sample_from[OF n] set_sample_from[OF n] k xs show ?thesis by simp
qed

lemma sample_distinct:
  assumes "sample pop k rs = Inr xs" and "distinct pop"
  shows "distinct xs"
proof -
  from assms have k: "0 \<le> k" "k \<le> int (length pop)" and xs: "xs = sample_from pop (nat k) rs"
    by (auto simp: sample_def split: if_splits)
  from k have n: "nat k \<le> length pop" by simp
  from distinct_sample_from[OF n assms(2)] xs show ?thesis by simp
qed

lemma sample_total:
  assumes "0 \<le> k" and "k \<le> int (length pop)"
  shows "\<exists>xs. sample pop k rs = Inr xs"
  using assms by (simp add: sample_def)

section \<open>Facts about the steps of the portfolio stage\<close>

lemma stock_bounds_Inr:
  assumes "stock_bounds agg r1 r2 = Inr (lo, hi)"
  shows "1 \<le> lo \<and> lo < hi \<and> 6 \<le> hi \<and> hi \<le> 20"
proof -
  from assms obtain a b c e where
    lo: "randint a b r1 = Inr lo" and hi: "randint c e r2 = Inr hi"
    and bands: "1 \<le> a" "b < c" "6 \<le> c" "e \<le> 20"
    by (auto simp: stock_bounds_def then_do_Inr_iff split: if_splits)
  from randint_Inr[OF lo] randint_Inr[OF hi] bands show ?thesis by linarith
qed

lemma stock_bounds_total: "\<exists>lo hi. stock_bounds agg r1 r2 = Inr (lo, hi)"
  by (simp add: stock_bounds_def randint_def)

lemma py_int_of_int: "py_int (of_int z) = z"
  by (simp add: py_int_def)

lemma lookup_all_Inr:
  "lookup_all m ks = Inr vs \<Longrightarrow> vs = map (\<lambda>k. the (m k)) ks \<and> set ks \<subseteq> dom m"
proof (induction ks arbitrary: vs)
  case Nil
  then show ?case by simp
next
  case (Cons k ks)
  from Cons.prems obtain v vs' where
    v: "m k = Some v" and r: "lookup_all m ks = Inr vs'" and vs: "vs = v # vs'"
    by (auto simp: then_do_Inr_iff split: option.splits)
  from Cons.IH[OF r] v vs show ?case by auto
qed

lemma lookup_all_total:
  "set ks \<subseteq> dom m \<Longrightarrow> \<exists>vs. lookup_all m ks = Inr vs"
proof (induction ks)
  case Nil
  show ?case by simp
next
  case (Cons k ks)
  then obtain v vs where "m k = Some v" "lookup_all m ks = Inr vs" by auto
  then show ?case by simp
qed

lemma shares_of_Inr:
  "shares_of prices amount ss = Inr hs \<Longrightarrow>
     map fst hs = ss \<and>
     (\<forall>(s, c) \<in> set hs. \<exists>p. prices s = Some p \<and> p \<noteq> 0 \<and> c = \<lfloor>amount / p\<rfloor>)"
proof (induction ss arbitrary: hs)
  case Nil
  then show ?case by simp
next
  case (Cons s ss)
  from Cons.prems obtain p q rest where
    p: "prices s = Some p" and q: "py_floordiv amount p = Inr q"
    and r: "shares_of prices amount ss = Inr rest" and hs: "hs = (s, py_int q) # rest"
    by (auto simp: then_do_Inr_iff split: option.splits)
  from q have "p \<noteq> 0" and "q = of_int \<lfloor>amount / p\<rfloor>"
    by (auto simp: py_floordiv_def split: if_splits)
  then have "py_int q = \<lfloor>amount / p\<rfloor>" by (simp add: py_int_of_int)
  with Cons.IH[OF r] p hs \<open>p \<noteq> 0\<close> show ?case by auto
qed

lemma shares_of_total:
  "(\<forall>s \<in> set ss. \<exists>p. prices s = Some p \<and> p \<noteq> 0) \<Longrightarrow> \<exists>hs. shares_of prices amount ss = Inr hs"
proof (induction ss)
  case Nil
  show ?case by simp
next
  case (Cons s ss)
  then obtain p hs where "prices s = Some p" "p \<noteq> 0" "shares_of prices amount ss = Inr hs" by auto
  then show ?case by (simp add: py_floordiv_def)
qed

section \<open>Facts about the built-in catalog\<close>

lemma TICKERS_stock_catalog: "TICKERS stock_catalog = stock_tickers"
  by (simp add: stock_catalog_def make_catalog_def)

lemma length_stock_tickers: "length stock_tickers = 21"
  by (simp add: stock_tickers_def)

lemma distinct_stock_tickers: "distinct stock_tickers"
  by (simp add: stock_tickers_def)

lemma length_stock_prices: "length stock_prices = 21"
  by (simp add: stock_prices_def)

lemma stock_prices_pos: "\<forall>p \<in> set stock_prices. 0 < p"
  by (simp add: stock_prices_def)

lemma PRICES_stock_catalog:
  assumes "s \<in> set stock_tickers"
  shows "\<exists>p. PRICES stock_catalog s = Some p \<and> 0 < p"
proof -
  have "dom (map_of (zip stock_tickers stock_prices)) = set stock_tickers"
    by (rule dom_map_of_zip) (simp add: length_stock_tickers length_stock_prices)
  with assms obtain p where p: "map_of (zip stock_tickers stock_prices) s = Some p" by blast
  then have "(s, p) \<in> set (zip stock_tickers stock_prices)" by (rule map_of_SomeD)
  then have "p \<in> set stock_prices" by (rule set_zip_rightD)
  with stock_prices_pos have "0 < p" by blast
  with p show ?thesis by (simp add: stock_catalog_def make_catalog_def)
qed

lemma dom_STOCKIDS_stock_catalog: "dom (STOCKIDS stock_catalog) = set stock_tickers"
proof -
  have "dom (map_of (zip stock_tickers (map int [1 ..< length stock_tickers + 1]))) = set stock_tickers"
    by (rule dom_map_of_zip) (simp del: upt_Suc)
  then show ?thesis by (simp add: stock_catalog_def make_catalog_def)
qed

lemma STOCKIDS_nth:
  assumes "i < length stock_tickers"
  shows "STOCKIDS stock_catalog (stock_tickers ! i) = Some (int i + 1)"
proof -
  let ?ids = "map int [1 ..< length stock_tickers + 1]"
  have "map_of (zip stock_tickers ?ids) (stock_tickers ! i) = Some (?ids ! i)"
    using distinct_stock_tickers assms by (intro map_of_zip_nth) (simp_all del: upt_Suc)
  moreover from assms have "?ids ! i = int i + 1" by (simp del: upt_Suc)
  ultimately show ?thesis by (simp add: stock_catalog_def make_catalog_def)
qed

lemma STOCKIDS_inj:
  assumes "s \<in> set stock_tickers" and "t \<in> set stock_tickers"
    and "STOCKIDS stock_catalog s = STOCKIDS stock_catalog t"
  shows "s = t"
proof -
  from assms(1) obtain i where i: "i < length stock_tickers" "s = stock_tickers ! i"
    by (auto simp: in_set_conv_nth)
  from assms(2) obtain j where j: "j < length stock_tickers" "t = stock_tickers ! j"
    by (auto simp: in_set_conv_nth)
  from STOCKIDS_nth[OF i(1)] STOCKIDS_nth[OF j(1)] assms(3) i(2) j(2) have "i = j" by simp
  with i j show ?thesis by simp
qed

lemma STOCKIDS_range:
  assumes "s \<in> set stock_tickers" and "STOCKIDS stock_catalog s = Some n"
  shows "1 \<le> n \<and> n \<le> 21"
proof -
  from assms(1) obtain i where i: "i < length stock_tickers" "s = stock_tickers ! i"
    by (auto simp: in_set_conv_nth)
  from STOCKIDS_nth[OF i(1)] assms(2) i(2) have "n = int i + 1" by simp
  with i(1) show ?thesis by (simp add: length_stock_tickers)
qed

section \<open>The stages, step by step\<close>

lemma Portfolio_Inr:
  assumes "Portfolio cat agg d = Inr p"
  obtains extra watchlist ids n_stocks picked amount where
    "stock_bounds agg (r_min_stocks d) (r_max_stocks d) = Inr (min_stocks p, max_stocks p)"
    "randint 3 8 (r_watchlist_extra d) = Inr extra"
    "sample (TICKERS cat) (min (int (length (TICKERS cat))) (max_stocks p + extra)) (r_watchlist d)
       = Inr watchlist"
    "lookup_all (STOCKIDS cat) watchlist = Inr ids"
    "watch_ids p = sort ids"
    "randint (min_stocks p) (max_stocks p) (r_n_stocks d) = Inr n_stocks"
    "sample watchlist n_stocks (r_portfolio d) = Inr picked"
    "amount_per_stock (balance p) (min_cash p) (max_cash p) n_stocks = Inr amount"
    "shares_of (PRICES cat) amount (sort picked) = Inr (holdings p)"
    "balance p = sample_log_balance 10000 50 (u_balance d)"
    "max_cash p = clamp01 (jitter (0.50 - 0.30 * agg) 0.15 (u_max_cash d))"
    "min_cash p = max_cash p * uniform 0.30 0.60 (u_min_cash d)"
  using assms
  by (auto simp: Portfolio_def Let_def then_do_Inr_iff)

lemma Portfolio_stock_catalog_total: "\<exists>p. Portfolio stock_catalog agg d = Inr p"
proof -
  obtain lo hi where sb: "stock_bounds agg (r_min_stocks d) (r_max_stocks d) = Inr (lo, hi)"
    using stock_bounds_total by blast
  from stock_bounds_Inr[OF sb] have b: "1 \<le> lo" "lo < hi" "6 \<le> hi" "hi \<le> 20" by simp_all
  obtain extra where ex: "randint 3 8 (r_watchlist_extra d) = Inr extra"
    using randint_total[of 3 8] by auto
  from randint_Inr[OF ex] have e: "3 \<le> extra" "extra \<le> 8" by simp_all
  let ?size = "min (int (length (TICKERS stock_catalog))) (hi + extra)"
  from b e have size: "?size = min 21 (hi + extra)" "0 \<le> ?size" "?size \<le> int (length stock_tickers)"
    by (simp_all add: TICKERS_stock_catalog length_stock_tickers)
  obtain watchlist where w: "sample (TICKERS stock_catalog) ?size (r_watchlist d) = Inr watchlist"
    using sample_total[of ?size "TICKERS stock_catalog"] size by (auto simp: TICKERS_stock_catalog)
  from sample_Inr[OF w] have wl: "int (length watchlist) = ?size" "set watchlist \<subseteq> set stock_tickers"
    by (simp_all add: TICKERS_stock_catalog)
  obtain ids where ids: "lookup_all (STOCKIDS stock_catalog) watchlist = Inr ids"
    using lookup_all_total[of watchlist "STOCKIDS stock_catalog"] wl(2)
    by (auto simp: dom_STOCKIDS_stock_catalog)
  obtain n where n: "randint lo hi (r_n_stocks d) = Inr n"
    using randint_total[of lo hi] b by auto
  from randint_Inr[OF n] have nb: "lo \<le> n" "n \<le> hi" by simp_all
  from nb b e wl(1) size(1) have "0 \<le> n" "n \<le> int (length watchlist)" by linarith+
  then obtain picked where pk: "sample watchlist n (r_portfolio d) = Inr picked"
    using sample_total[of n watchlist] by auto
  from sample_Inr[OF pk] wl(2) have ps: "set (sort picked) \<subseteq> set stock_tickers" by auto
  let ?bal = "sample_log_balance 10000 50 (u_balance d)"
  let ?mx = "clamp01 (jitter (0.50 - 0.30 * agg) 0.15 (u_max_cash d))"
  let ?mn = "?mx * uniform 0.30 0.60 (u_min_cash d)"
  from nb b have "n \<noteq> 0" by linarith
  then obtain amount where am: "amount_per_stock ?bal ?mn ?mx n = Inr amount"
    by (simp add: amount_per_stock_def py_floordiv_def)
  have "\<forall>s \<in> set (sort picked). \<exists>p. PRICES stock_catalog s = Some p \<and> p \<noteq> 0"
  proof
    fix s assume "s \<in> set (sort picked)"
    with ps have "s \<in> set stock_tickers" by blast
    from PRICES_stock_catalog[OF this] show "\<exists>p. PRICES stock_catalog s = Some p \<and> p \<noteq> 0" by auto
  qed
  from shares_of_total[OF this] obtain hs where
    hs: "shares_of (PRICES stock_catalog) amount (sort picked) = Inr hs" by blast
  from sb ex w ids n pk am hs show ?thesis
    by (simp add: Portfolio_def Let_def)
qed

lemma Person_init_Inr:
  assumes "Person_init cat isalnum d st = Some (Inr p, st')"
  shows "randint 1000000 10000000 (r_seed d) = Inr (seed p)"
    and "Identity isalnum (identity_d d) st = Some (ident p, st')"
    and "trade p = TradeProperties (trade_d d)"
    and "Portfolio cat (aggressive (trade p)) (portfolio_d d) = Inr (pfolio p)"
    and "orders p = OrderTypes (aggressive (trade p)) (order_d d)"
    and "TradeLimits (aggressive (trade p)) (max_stocks (pfolio p)) (limit_d d) = Inr (limits p)"
  using assms
  by (auto simp: Person_init_def Let_def then_do_Inr_iff split: sum.splits option.splits)

lemma generate_username_two_names:
  "generate_username ascii_alnum two_names {} 0 = Some (''alicesmith'', {''alicesmith''})"
proof -
  have t0: "try_username ascii_alnum {} (two_names 0) = None"
    by (rule try_username_short) (simp add: two_names_def)
  have t1: "try_username ascii_alnum {} (two_names (Suc 0)) = Some ''alicesmith''"
    by (simp add: two_names_def try_username_def ascii_alnum_def USERNAME_RE_match_def less_eq_char_def)
  have "generate_username ascii_alnum two_names {} (Suc 0) = Some (''alicesmith'', {''alicesmith''})"
    by (subst generate_username.simps) (simp add: t1)
  then show ?thesis
    by (subst generate_username.simps) (simp add: t0)
qed

lemma TradeLimits_total:
  assumes "n_max \<noteq> 0"
  shows "\<exists>tls. TradeLimits agg n_max d = Inr tls"
  using assms by (simp add: TradeLimits_def py_truediv_def Let_def)

lemma Person_init_eq:
  assumes "randint 1000000 10000000 (r_seed d) = Inr sd"
    and "Identity isalnum (identity_d d) st = Some (idn, st')"
    and "Portfolio cat (aggressive (TradeProperties (trade_d d))) (portfolio_d d) = Inr pf"
    and "TradeLimits (aggressive (TradeProperties (trade_d d))) (max_stocks pf) (limit_d d) = Inr tls"
  shows "Person_init cat isalnum d st =
     Some (Inr \<lparr> seed = sd, ident = idn, trade = TradeProperties (trade_d d), pfolio = pf,
                  orders = OrderTypes (aggressive (TradeProperties (trade_d d))) (order_d d),
                  limits = tls \<rparr>, st')"
  using assms by (simp add: Person_init_def Let_def)

lemma Identity_total:
  assumes "generate_username isalnum (fake_user_name d) (usernames st) 0 = Some r"
  shows "\<exists>idn st'. Identity isalnum d st = Some (idn, st')"
  using assms by (cases r) (simp add: Identity_def Let_def)

lemma Person_init_completes:
  assumes "generate_username isalnum (fake_user_name (identity_d d)) (usernames st) 0 = Some r"
  shows "\<exists>p st'. Person_init stock_catalog isalnum d st = Some (Inr p, st')"
proof -
  obtain sd where sd: "randint 1000000 10000000 (r_seed d) = Inr sd"
    using randint_total[of 1000000 10000000] by auto
  from Identity_total[OF assms] obtain idn st' where
    idn: "Identity isalnum (identity_d d) st = Some (idn, st')" by blast
  let ?agg = "aggressive (TradeProperties (trade_d d))"
  obtain pf where pf: "Portfolio stock_catalog ?agg (portfolio_d d) = Inr pf"
    using Portfolio_stock_catalog_total by blast
  from pf obtain sb: "stock_bounds ?agg (r_min_stocks (portfolio_d d)) (r_max_stocks (portfolio_d d))
      = Inr (min_stocks pf, max_stocks pf)"
    by (rule Portfolio_Inr)
  from stock_bounds_Inr[OF sb] have "max_stocks pf \<noteq> 0" by linarith
  from TradeLimits_total[OF this] obtain tls where
    tls: "TradeLimits ?agg (max_stocks pf) (limit_d d) = Inr tls" by blast
  from Person_init_eq[OF sd idn pf tls] show ?thesis by blast
qed

lemma example_person_exists:
  "\<exists>p st'. Person_init stock_catalog ascii_alnum example_draws fresh_registry = Some (Inr p, st')"
proof (rule Person_init_completes)
  show "generate_username ascii_alnum (fake_user_name (identity_d example_draws))
     (usernames fresh_registry) 0 = Some (''alicesmith'', {''alicesmith''})"
    using generate_username_two_names by (simp add: example_draws_def fresh_registry_def)
qed

section \<open>The starting balance\<close>

lemma sample_log_balance_range:
  assumes "unit_draw u"
  shows "10000 \<le> sample_log_balance 10000 50 u \<and> sample_log_balance 10000 50 u < 500000"
proof -
  from assms have u: "0 \<le> u" "u < 1" by (simp_all add: unit_draw_def)
  have "(50::real) powr 0 \<le> 50 powr u" using u(1) by (intro powr_mono) simp_all
  then have lo: "(1::real) \<le> 50 powr u" by simp
  have "(50::real) powr u < 50 powr 1" using u(2) by (intro powr_less_mono) simp_all
  then have hi: "(50::real) powr u < 50" by simp
  let ?x = "10000 * (50::real) powr u"
  from lo hi have x: "10000 \<le> ?x" "?x < 500000" by simp_all
  then have "sample_log_balance 10000 50 u = \<lfloor>?x\<rfloor>"
    by (simp add: sample_log_balance_def py_int_def)
  moreover from x(1) have "10000 \<le> \<lfloor>?x\<rfloor>" by (simp add: le_floor_iff)
  moreover from x(2) have "\<lfloor>?x\<rfloor> < 500000" by (simp add: floor_less_iff)
  ultimately show ?thesis by simp
qed

text \<open>
  C10. The starting balance of every generated person is an integer, the sample
  \<open>10000 * 50 ** u\<close> truncated toward zero, and lies in \<open>[10000, 500000)\<close>.
\<close>

theorem balance_range:
  assumes "Person_init cat isalnum d st = Some (Inr p, st')"
    and "unit_draw (u_balance (portfolio_d d))"
  shows "balance (pfolio p) = py_int (10000 * 50 powr u_balance (portfolio_d d))
     \<and> 10000 \<le> balance (pfolio p) \<and> balance (pfolio p) < 500000"
proof -
  from Person_init_Inr(4)[OF assms(1)] obtain
    "balance (pfolio p) = sample_log_balance 10000 50 (u_balance (portfolio_d d))"
    by (rule Portfolio_Inr)
  with sample_log_balance_range[OF assms(2)] show ?thesis
    by (simp add: sample_log_balance_def)
qed

theorem balance_range_witness:
  "\<exists>p st'. Person_init stock_catalog ascii_alnum example_draws fresh_registry = Some (Inr p, st')
     \<and> unit_draw (u_balance (portfolio_d example_draws))
     \<and> 10000 \<le> balance (pfolio p) \<and> balance (pfolio p) < 500000"
proof -
  from example_person_exists obtain p st' where
    p: "Person_init stock_catalog ascii_alnum example_draws fresh_registry = Some (Inr p, st')"
    by blast
  have u: "unit_draw (u_balance (portfolio_d example_draws))"
    by (simp add: unit_draw_def example_draws_def)
  from balance_range[OF p u] p u show ?thesis by blast
qed

section \<open>The example person\<close>

lemma example_aggressive: "aggressive (TradeProperties (trade_d example_draws)) = 0"
  by (simp add: TradeProperties_def example_draws_def skewed01_def jitter_def uniform_def
      clamp01_def Let_def)

lemma Identity_example:
  "Identity ascii_alnum (identity_d example_draws) fresh_registry =
     Some (\<lparr> user_id = 1, full_name = ''Alice Smith'', username = ''alicesmith'',
              email = ''alicesmith@example.org'', birthdate = ''1990-01-01'' \<rparr>,
           \<lparr> idx = 2, usernames = {''alicesmith''} \<rparr>)"
  by (simp add: Identity_def Let_def example_draws_def fresh_registry_def generate_username_two_names)

lemma completed_example:
  assumes pf: "Portfolio cat 0 (portfolio_d example_draws) = Inr pf" and n: "max_stocks pf \<noteq> 0"
  shows "\<exists>p. completed (Person_init cat ascii_alnum example_draws fresh_registry) = Some p
           \<and> pfolio p = pf \<and> trade p = TradeProperties (trade_d example_draws)"
proof -
  obtain sd where sd: "randint 1000000 10000000 (r_seed example_draws) = Inr sd"
    using randint_total[of 1000000 10000000] by auto
  let ?agg = "aggressive (TradeProperties (trade_d example_draws))"
  from pf have pf': "Portfolio cat ?agg (portfolio_d example_draws) = Inr pf"
    by (simp add: example_aggressive)
  from TradeLimits_total[OF n] obtain tls where
    tls: "TradeLimits ?agg (max_stocks pf) (limit_d example_draws) = Inr tls" by blast
  from Person_init_eq[OF sd Identity_example pf' tls] show ?thesis
    by (simp add: completed_def)
qed

section \<open>The numbers of open positions\<close>

lemma Portfolio_small_catalog:
  "Portfolio small_catalog 0 (portfolio_d example_draws) =
     Inr \<lparr> balance = 10000, max_cash = 1/2, min_cash = 3/20, min_stocks = 1, max_stocks = 6,
           watch_ids = [1, 2, 3], holdings = [(''AAA'', 36), (''CCC'', 73)] \<rparr>"
  by code_simp

text \<open>
  C4 (as the source has it). For every completed person, whatever the catalog,
  \<open>1 \<le> min_stocks < max_stocks\<close> and \<open>6 \<le> max_stocks \<le> 20\<close>; the built-in catalog has 21
  instruments, so there \<open>max_stocks\<close> is below the catalog size. The stage holds no clamp
  of \<open>max_stocks\<close> to the catalog size.
\<close>

theorem stock_counts_range:
  assumes "Person_init cat isalnum d st = Some (Inr p, st')"
  shows "1 \<le> min_stocks (pfolio p) \<and> min_stocks (pfolio p) < max_stocks (pfolio p)
     \<and> 6 \<le> max_stocks (pfolio p) \<and> max_stocks (pfolio p) \<le> 20
     \<and> max_stocks (pfolio p) < int (length (TICKERS stock_catalog))"
proof -
  from Person_init_Inr(4)[OF assms] obtain
    "stock_bounds (aggressive (trade p)) (r_min_stocks (portfolio_d d)) (r_max_stocks (portfolio_d d))
       = Inr (min_stocks (pfolio p), max_stocks (pfolio p))"
    by (rule Portfolio_Inr)
  from stock_bounds_Inr[OF this] show ?thesis
    by (simp add: TICKERS_stock_catalog length_stock_tickers)
qed

theorem stock_counts_range_witness:
  "\<exists>p st'. Person_init stock_catalog ascii_alnum example_draws fresh_registry = Some (Inr p, st')
     \<and> 1 \<le> min_stocks (pfolio p) \<and> min_stocks (pfolio p) < max_stocks (pfolio p)
     \<and> max_stocks (pfolio p) \<le> 20"
proof -
  from example_person_exists obtain p st' where
    p: "Person_init stock_catalog ascii_alnum example_draws fresh_registry = Some (Inr p, st')"
    by blast
  from stock_counts_range[OF p] p show ?thesis by blast
qed

text \<open>
  C4 fails as stated: over the catalog of three instruments priced 100, 200 and 50, with
  aggressiveness 0, a person is completed whose \<open>max_stocks\<close> is 6.
\<close>

theorem max_stocks_exceeds_small_catalog:
  "map_option (aggressive \<circ> trade)
       (completed (Person_init small_catalog ascii_alnum example_draws fresh_registry)) = Some 0
   \<and> map_option (max_stocks \<circ> pfolio)
       (completed (Person_init small_catalog ascii_alnum example_draws fresh_registry)) = Some 6
   \<and> length (TICKERS small_catalog) = 3"
proof -
  from completed_example[OF Portfolio_small_catalog] obtain p where
    "completed (Person_init small_catalog ascii_alnum example_draws fresh_registry) = Some p"
    "max_stocks (pfolio p) = 6" "aggressive (trade p) = 0"
    by (auto simp: example_aggressive)
  then show ?thesis by (simp add: small_catalog_def make_catalog_def)
qed

section \<open>Watchlist and holdings\<close>

lemma randint_value:
  assumes "randint a b r = Inr v"
  shows "v = a + int (r mod nat (b - a + 1))"
  using assms by (auto simp: randint_def split: if_splits)

text \<open>What the portfolio stage fixes about the watchlist and the held tickers.\<close>

lemma Portfolio_stock_catalog_facts:
  assumes "Portfolio stock_catalog agg d = Inr p"
  obtains watchlist picked where
    "set watchlist \<subseteq> set stock_tickers" "distinct watchlist"
    "int (length watchlist) = min 21 (max_stocks p + (3 + int (r_watchlist_extra d mod 6)))"
    "watch_ids p = sort (map (\<lambda>s. the (STOCKIDS stock_catalog s)) watchlist)"
    "set picked \<subseteq> set watchlist" "distinct picked"
    "min_stocks p \<le> int (length picked)" "int (length picked) \<le> max_stocks p"
    "map fst (holdings p) = sort picked"
proof -
  from assms obtain extra watchlist ids n_stocks picked amount where
    ex: "randint 3 8 (r_watchlist_extra d) = Inr extra"
    and w: "sample (TICKERS stock_catalog) (min (int (length (TICKERS stock_catalog)))
        (max_stocks p + extra)) (r_watchlist d) = Inr watchlist"
    and ids: "lookup_all (STOCKIDS stock_catalog) watchlist = Inr ids"
    and wi: "watch_ids p = sort ids"
    and n: "randint (min_stocks p) (max_stocks p) (r_n_stocks d) = Inr n_stocks"
    and pk: "sample watchlist n_stocks (r_portfolio d) = Inr picked"
    and hs: "shares_of (PRICES stock_catalog) amount (sort picked) = Inr (holdings p)"
    by (rule Portfolio_Inr)
  from randint_value[OF ex] have extra: "extra = 3 + int (r_watchlist_extra d mod 6)" by simp
  from sample_Inr[OF w] have 1: "set watchlist \<subseteq> set stock_tickers"
    and 3: "int (length watchlist) = min 21 (max_stocks p + (3 + int (r_watchlist_extra d mod 6)))"
    by (simp_all add: TICKERS_stock_catalog length_stock_tickers extra)
  from sample_distinct[OF w] have 2: "distinct watchlist"
    by (simp add: TICKERS_stock_catalog distinct_stock_tickers)
  from lookup_all_Inr[OF ids] wi
  have 4: "watch_ids p = sort (map (\<lambda>s. the (STOCKIDS stock_catalog s)) watchlist)" by simp
  from sample_Inr[OF pk] have 5: "set picked \<subseteq> set watchlist" and len: "int (length picked) = n_stocks"
    by simp_all
  from sample_distinct[OF pk 2] have 6: "distinct picked" .
  from randint_Inr[OF n] len have 7: "min_stocks p \<le> int (length picked)"
    and 8: "int (length picked) \<le> max_stocks p" by simp_all
  from shares_of_Inr[OF hs] have 9: "map fst (holdings p) = sort picked" by simp
  from 1 2 3 4 5 6 7 8 9 show thesis by (rule that)
qed

lemma Portfolio_stock_bounds:
  assumes "Portfolio cat agg d = Inr p"
  shows "1 \<le> min_stocks p \<and> min_stocks p < max_stocks p \<and> 6 \<le> max_stocks p \<and> max_stocks p \<le> 20"
proof -
  from assms obtain
    "stock_bounds agg (r_min_stocks d) (r_max_stocks d) = Inr (min_stocks p, max_stocks p)"
    by (rule Portfolio_Inr)
  from stock_bounds_Inr[OF this] show ?thesis .
qed

lemma STOCKIDS_the_inj: "inj_on (\<lambda>s. the (STOCKIDS stock_catalog s)) (set stock_tickers)"
proof (rule inj_onI)
  fix s t
  assume s: "s \<in> set stock_tickers" and t: "t \<in> set stock_tickers"
    and eq: "the (STOCKIDS stock_catalog s) = the (STOCKIDS stock_catalog t)"
  from s t dom_STOCKIDS_stock_catalog obtain a b where
    "STOCKIDS stock_catalog s = Some a" "STOCKIDS stock_catalog t = Some b" by blast
  with eq have "STOCKIDS stock_catalog s = STOCKIDS stock_catalog t" by simp
  with s t show "s = t" by (rule STOCKIDS_inj)
qed

text \<open>
  C7. For every completed person (built-in catalog of 21 instruments) the watchlist has
  \<open>min(21, max_stocks + randint(3, 8))\<close> distinct instrument ids: more than \<open>max_stocks\<close> and at
  most the catalog size.
\<close>

theorem watchlist_size_bounds:
  assumes "Person_init stock_catalog isalnum d st = Some (Inr p, st')"
  shows "int (length (watch_ids (pfolio p))) =
       min (int (length (TICKERS stock_catalog)))
         (max_stocks (pfolio p) + (3 + int (r_watchlist_extra (portfolio_d d) mod 6)))
     \<and> max_stocks (pfolio p) < int (length (watch_ids (pfolio p)))
     \<and> length (watch_ids (pfolio p)) \<le> length (TICKERS stock_catalog)
     \<and> distinct (watch_ids (pfolio p))"
proof -
  let ?f = "\<lambda>s. the (STOCKIDS stock_catalog s)"
  note pf = Person_init_Inr(4)[OF assms]
  from pf obtain watchlist where
    sub: "set watchlist \<subseteq> set stock_tickers" and dist: "distinct watchlist"
    and len: "int (length watchlist) =
       min 21 (max_stocks (pfolio p) + (3 + int (r_watchlist_extra (portfolio_d d) mod 6)))"
    and wi: "watch_ids (pfolio p) = sort (map ?f watchlist)"
    by (rule Portfolio_stock_catalog_facts)
  from Portfolio_stock_bounds[OF pf] have hi: "max_stocks (pfolio p) \<le> 20" by simp
  from wi have l: "length (watch_ids (pfolio p)) = length watchlist" by simp
  from STOCKIDS_the_inj sub have "inj_on ?f (set watchlist)" by (rule inj_on_subset)
  with dist have "distinct (map ?f watchlist)" by (simp add: distinct_map)
  with wi have d: "distinct (watch_ids (pfolio p))" by simp
  from len l hi d show ?thesis
    by (simp add: TICKERS_stock_catalog length_stock_tickers)
qed

theorem watchlist_size_bounds_witness:
  "\<exists>p st'. Person_init stock_catalog ascii_alnum example_draws fresh_registry = Some (Inr p, st')
     \<and> max_stocks (pfolio p) < int (length (watch_ids (pfolio p)))
     \<and> length (watch_ids (pfolio p)) \<le> 21"
proof -
  from example_person_exists obtain p st' where
    p: "Person_init stock_catalog ascii_alnum example_draws fresh_registry = Some (Inr p, st')"
    by blast
  from watchlist_size_bounds[OF p] p show ?thesis
    by (auto simp: TICKERS_stock_catalog length_stock_tickers)
qed

text \<open>
  C3. For every completed person the held tickers (the keys of \<^verbatim>\<open>holdings\<close>) are pairwise
  distinct, each of them is on the watchlist (its id is among the watchlist ids), and
  their number lies between \<open>min_stocks\<close> and \<open>max_stocks\<close>.
\<close>

theorem holdings_within_watchlist:
  assumes "Person_init stock_catalog isalnum d st = Some (Inr p, st')"
  shows "(\<forall>s \<in> set (map fst (holdings (pfolio p))).
            \<exists>i. STOCKIDS stock_catalog s = Some i \<and> i \<in> set (watch_ids (pfolio p)))
     \<and> distinct (map fst (holdings (pfolio p)))
     \<and> min_stocks (pfolio p) \<le> int (length (holdings (pfolio p)))
     \<and> int (length (holdings (pfolio p))) \<le> max_stocks (pfolio p)"
proof -
  let ?f = "\<lambda>s. the (STOCKIDS stock_catalog s)"
  note pf = Person_init_Inr(4)[OF assms]
  from pf obtain watchlist picked where
    sub: "set watchlist \<subseteq> set stock_tickers"
    and wi: "watch_ids (pfolio p) = sort (map ?f watchlist)"
    and pk: "set picked \<subseteq> set watchlist" "distinct picked"
    and n: "min_stocks (pfolio p) \<le> int (length picked)" "int (length picked) \<le> max_stocks (pfolio p)"
    and keys: "map fst (holdings (pfolio p)) = sort picked"
    by (rule Portfolio_stock_catalog_facts)
  have "\<forall>s \<in> set (map fst (holdings (pfolio p))).
      \<exists>i. STOCKIDS stock_catalog s = Some i \<and> i \<in> set (watch_ids (pfolio p))"
  proof
    fix s assume "s \<in> set (map fst (holdings (pfolio p)))"
    with keys pk(1) have sw: "s \<in> set watchlist" by auto
    with sub dom_STOCKIDS_stock_catalog obtain i where i: "STOCKIDS stock_catalog s = Some i" by blast
    from sw have "?f s \<in> set (map ?f watchlist)" by simp
    with i wi have "i \<in> set (watch_ids (pfolio p))" by simp
    with i show "\<exists>i. STOCKIDS stock_catalog s = Some i \<and> i \<in> set (watch_ids (pfolio p))" by blast
  qed
  moreover from keys pk(2) have "distinct (map fst (holdings (pfolio p)))" by simp
  moreover have "length (holdings (pfolio p)) = length picked"
    using keys by (metis length_map length_sort)
  ultimately show ?thesis using n by simp
qed

theorem holdings_within_watchlist_witness:
  "\<exists>p st'. Person_init stock_catalog ascii_alnum example_draws fresh_registry = Some (Inr p, st')
     \<and> distinct (map fst (holdings (pfolio p)))
     \<and> min_stocks (pfolio p) \<le> int (length (holdings (pfolio p)))
     \<and> int (length (holdings (pfolio p))) \<le> max_stocks (pfolio p)"
proof -
  from example_person_exists obtain p st' where
    p: "Person_init stock_catalog ascii_alnum example_draws fresh_registry = Some (Inr p, st')"
    by blast
  from holdings_within_watchlist[OF p] p show ?thesis by blast
qed

section \<open>The allocation per held instrument\<close>








section \<open>The trade limits\<close>

lemma clamp01_range: "0 \<le> clamp01 x \<and> clamp01 x \<le> 1"
  by (simp add: clamp01_def)

lemma uniform_range:
  assumes "unit_draw u" and "a \<le> b"
  shows "a \<le> uniform a b u \<and> uniform a b u \<le> b"
proof -
  from assms(1) have u: "0 \<le> u" "u \<le> 1" by (simp_all add: unit_draw_def)
  from assms(2) have d: "0 \<le> b - a" by simp
  from d u(1) have "0 \<le> (b - a) * u" by (rule mult_nonneg_nonneg)
  moreover from d u(2) have "(b - a) * u \<le> (b - a) * 1" by (rule mult_left_mono[rotated])
  ultimately show ?thesis by (simp add: uniform_def)
qed

lemma TradeLimits_Inr:
  assumes "TradeLimits agg n_max d = Inr tls"
  shows "n_max \<noteq> 0"
    and "per_pos_max tls = min (clamp01 (jitter (0.08 + 0.22 * agg) 0.15 (u_per_pos_max d)))
           (1 / of_int n_max)"
    and "min_trade_amount tls = per_pos_max tls * uniform 0.10 0.30 (u_min_trade_amount d)"
    and "max_trade_amount tls = per_pos_max tls * uniform 0.40 0.80 (u_max_trade_amount d)"
  using assms
  by (auto simp: TradeLimits_def py_truediv_def Let_def then_do_Inr_iff split: if_splits)

text \<open>
  C2. For every completed person
  \<open>min_trade_amount \<le> max_trade_amount \<le> per_pos_max \<le> 1/max_stocks\<close>, where \<open>per_pos_max\<close> is
  the smaller of the clamped, jittered \<open>0.08 + 0.22 * aggressive\<close> and \<open>1/max_stocks\<close>.
\<close>

theorem trade_limit_chain:
  assumes "Person_init cat isalnum d st = Some (Inr p, st')"
    and "unit_draw (u_min_trade_amount (limit_d d))"
    and "unit_draw (u_max_trade_amount (limit_d d))"
  shows "min_trade_amount (limits p) \<le> max_trade_amount (limits p)
     \<and> max_trade_amount (limits p) \<le> per_pos_max (limits p)
     \<and> per_pos_max (limits p) \<le> 1 / of_int (max_stocks (pfolio p))
     \<and> per_pos_max (limits p) =
         min (clamp01 (jitter (0.08 + 0.22 * aggressive (trade p)) 0.15 (u_per_pos_max (limit_d d))))
           (1 / of_int (max_stocks (pfolio p)))"
proof -
  let ?n = "max_stocks (pfolio p)"
  let ?ppm = "per_pos_max (limits p)"
  note tl = TradeLimits_Inr[OF Person_init_Inr(6)[OF assms(1)]]
  from Portfolio_stock_bounds[OF Person_init_Inr(4)[OF assms(1)]] have n: "0 < ?n" by simp
  then have "0 \<le> 1 / real_of_int ?n" by simp
  with tl(2) clamp01_range[of "jitter (0.08 + 0.22 * aggressive (trade p)) 0.15 (u_per_pos_max (limit_d d))"]
  have ppm: "0 \<le> ?ppm" by simp
  from tl(2) have top: "?ppm \<le> 1 / of_int ?n" by simp
  from uniform_range[OF assms(2), where a = "0.10" and b = "0.30"]
  have a: "uniform 0.10 0.30 (u_min_trade_amount (limit_d d)) \<le> 0.30" by simp
  from uniform_range[OF assms(3), where a = "0.40" and b = "0.80"]
  have b: "0.40 \<le> uniform 0.40 0.80 (u_max_trade_amount (limit_d d))"
    "uniform 0.40 0.80 (u_max_trade_amount (limit_d d)) \<le> 0.80" by simp_all
  from a b(1) have "uniform 0.10 0.30 (u_min_trade_amount (limit_d d))
      \<le> uniform 0.40 0.80 (u_max_trade_amount (limit_d d))" by simp
  with ppm have "?ppm * uniform 0.10 0.30 (u_min_trade_amount (limit_d d))
      \<le> ?ppm * uniform 0.40 0.80 (u_max_trade_amount (limit_d d))" by (rule mult_left_mono[rotated])
  with tl(3,4) have 1: "min_trade_amount (limits p) \<le> max_trade_amount (limits p)" by simp
  from b(2) have "uniform 0.40 0.80 (u_max_trade_amount (limit_d d)) \<le> 1" by simp
  with ppm have "?ppm * uniform 0.40 0.80 (u_max_trade_amount (limit_d d)) \<le> ?ppm * 1"
    by (rule mult_left_mono[rotated])
  with tl(4) have 2: "max_trade_amount (limits p) \<le> ?ppm" by simp
  from 1 2 top tl(2) show ?thesis by blast
qed

theorem trade_limit_chain_witness:
  "\<exists>p st'. Person_init stock_catalog ascii_alnum example_draws fresh_registry = Some (Inr p, st')
     \<and> unit_draw (u_min_trade_amount (limit_d example_draws))
     \<and> unit_draw (u_max_trade_amount (limit_d example_draws))
     \<and> min_trade_amount (limits p) \<le> max_trade_amount (limits p)
     \<and> max_trade_amount (limits p) \<le> per_pos_max (limits p)
     \<and> per_pos_max (limits p) \<le> 1 / of_int (max_stocks (pfolio p))"
proof -
  from example_person_exists obtain p st' where
    p: "Person_init stock_catalog ascii_alnum example_draws fresh_registry = Some (Inr p, st')"
    by blast
  have u: "unit_draw (u_min_trade_amount (limit_d example_draws))"
    "unit_draw (u_max_trade_amount (limit_d example_draws))"
    by (simp_all add: unit_draw_def example_draws_def)
  from trade_limit_chain[OF p u] p u show ?thesis by blast
qed

section \<open>The decision interval\<close>

lemma TradeProperties_aggressive: "0 \<le> aggressive (TradeProperties d) \<and> aggressive (TradeProperties d) \<le> 1"
  using clamp01_range by (simp add: TradeProperties_def Let_def)





section \<open>The batch\<close>

lemma Identity_Some:
  assumes "Identity isalnum d st = Some (idn, st')"
  shows "user_id idn = idx st" and "idx st' = idx st + 1"
    and "generate_username isalnum (fake_user_name d) (usernames st) 0
           = Some (username idn, usernames st')"
  using assms by (auto simp: Identity_def Let_def split: option.splits)

lemma Person_init_registry:
  assumes "Person_init cat isalnum d st = Some (r, st')"
  shows "\<exists>h. idx st' = idx st + 1
     \<and> generate_username isalnum (fake_user_name (identity_d d)) (usernames st) 0
           = Some (h, usernames st')
     \<and> (\<forall>p. r = Inr p \<longrightarrow> user_id (ident p) = idx st \<and> username (ident p) = h)"
proof -
  from assms obtain sd where sd: "randint 1000000 10000000 (r_seed d) = Inr sd"
    using randint_total[of 1000000 10000000 "r_seed d"] by auto
  with assms obtain idn where idn: "Identity isalnum (identity_d d) st = Some (idn, st')"
    and r': "r = then_do (Portfolio cat (aggressive (TradeProperties (trade_d d))) (portfolio_d d))
        (\<lambda>pf. then_do (TradeLimits (aggressive (TradeProperties (trade_d d))) (max_stocks pf) (limit_d d))
        (\<lambda>tls. Inr \<lparr> seed = sd, ident = idn, trade = TradeProperties (trade_d d), pfolio = pf,
             orders = OrderTypes (aggressive (TradeProperties (trade_d d))) (order_d d),
             limits = tls \<rparr>))"
    by (auto simp: Person_init_def Let_def split: option.splits)
  have r: "\<forall>p. r = Inr p \<longrightarrow> ident p = idn"
    unfolding r' by (auto simp: then_do_Inr_iff)
  from Identity_Some[OF idn] r show ?thesis by auto
qed

lemma Person_init_handle:
  assumes "Person_init cat isalnum d st = Some (r, st')"
  shows "\<exists>h. h \<notin> usernames st \<and> usernames st' = insert h (usernames st) \<and> USERNAME_RE_match h
     \<and> idx st' = idx st + 1
     \<and> (\<forall>p. r = Inr p \<longrightarrow> user_id (ident p) = idx st \<and> username (ident p) = h)"
proof -
  from Person_init_registry[OF assms] obtain h where
    i: "idx st' = idx st + 1"
    and g: "generate_username isalnum (fake_user_name (identity_d d)) (usernames st) 0
           = Some (h, usernames st')"
    and r: "\<forall>p. r = Inr p \<longrightarrow> user_id (ident p) = idx st \<and> username (ident p) = h" by blast
  from generate_username_Some[OF g] obtain k where
    t: "try_username isalnum (usernames st) (fake_user_name (identity_d d) k) = Some h"
    and u: "usernames st' = insert h (usernames st)" by auto
  from try_username_Some[OF t] have "USERNAME_RE_match h" "h \<notin> usernames st" by blast+
  with i u r show ?thesis by blast
qed

lemma people_loop_Inr:
  "people_loop cat isalnum ds st = Some (Inr ps, st') \<Longrightarrow>
     length ps = length ds
     \<and> map (user_id \<circ> ident) ps = [idx st .. idx st + int (length ds) - 1]
     \<and> idx st' = idx st + int (length ds)
     \<and> distinct (map (username \<circ> ident) ps)
     \<and> set (map (username \<circ> ident) ps) \<inter> usernames st = {}
     \<and> usernames st' = usernames st \<union> set (map (username \<circ> ident) ps)
     \<and> list_all (USERNAME_RE_match \<circ> username \<circ> ident) ps"
proof (induction ds arbitrary: st ps)
  case Nil
  then show ?case by simp
next
  case (Cons d ds)
  from Cons.prems obtain p st1 qs where
    p: "Person_init cat isalnum d st = Some (Inr p, st1)"
    and qs: "people_loop cat isalnum ds st1 = Some (Inr qs, st')"
    and ps: "ps = p # qs"
    by (auto split: option.splits sum.splits prod.splits)
  from Person_init_handle[OF p] have h: "username (ident p) \<notin> usernames st"
    "usernames st1 = insert (username (ident p)) (usernames st)"
    "USERNAME_RE_match (username (ident p))"
    "idx st1 = idx st + 1" "user_id (ident p) = idx st" by auto
  from Cons.IH[OF qs] have ih: "length qs = length ds"
    "map (user_id \<circ> ident) qs = [idx st1 .. idx st1 + int (length ds) - 1]"
    "idx st' = idx st1 + int (length ds)"
    "distinct (map (username \<circ> ident) qs)"
    "set (map (username \<circ> ident) qs) \<inter> usernames st1 = {}"
    "usernames st' = usernames st1 \<union> set (map (username \<circ> ident) qs)"
    "list_all (USERNAME_RE_match \<circ> username \<circ> ident) qs" by blast+
  have "[idx st .. idx st + int (length (d # ds)) - 1]
      = idx st # [idx st + 1 .. idx st + 1 + int (length ds) - 1]"
    by (subst upto_rec1) (simp_all add: add.commute add.left_commute)
  with ih(2) h(4,5) ps have ids: "map (user_id \<circ> ident) ps = [idx st .. idx st + int (length (d # ds)) - 1]"
    by simp
  from ih(5) h(2) have notin: "username (ident p) \<notin> set (map (username \<circ> ident) qs)" by auto
  from ih(1) ps have 1: "length ps = length (d # ds)" by simp
  from ih(3) h(4) have 3: "idx st' = idx st + int (length (d # ds))" by simp
  from ih(4) notin ps have 4: "distinct (map (username \<circ> ident) ps)" by simp
  from ih(5) h(1,2) ps have 5: "set (map (username \<circ> ident) ps) \<inter> usernames st = {}" by auto
  from ih(6) h(2) ps have 6: "usernames st' = usernames st \<union> set (map (username \<circ> ident) ps)" by auto
  from ih(7) h(3) ps have 7: "list_all (USERNAME_RE_match \<circ> username \<circ> ident) ps" by simp
  from 1 ids 3 4 5 6 7 show ?case by blast
qed

lemma generate_username_later_names_fresh:
  "generate_username ascii_alnum later_names {} 0 = Some (''alicesmith'', {''alicesmith''})"
proof -
  have "try_username ascii_alnum {} (later_names 0) = Some ''alicesmith''"
    by (simp add: later_names_def try_username_def ascii_alnum_def USERNAME_RE_match_def less_eq_char_def)
  then show ?thesis by (subst generate_username.simps) simp
qed

lemma generate_username_later_names_taken:
  "generate_username ascii_alnum later_names {''alicesmith''} 0
     = Some (''bobjones77'', {''bobjones77'', ''alicesmith''})"
proof -
  have t0: "try_username ascii_alnum {''alicesmith''} (later_names 0) = None"
    by (simp add: later_names_def try_username_def ascii_alnum_def USERNAME_RE_match_def less_eq_char_def)
  have t1: "try_username ascii_alnum {''alicesmith''} (later_names (Suc 0)) = Some ''bobjones77''"
    by (simp add: later_names_def try_username_def ascii_alnum_def USERNAME_RE_match_def less_eq_char_def)
  have "generate_username ascii_alnum later_names {''alicesmith''} (Suc 0)
      = Some (''bobjones77'', {''bobjones77'', ''alicesmith''})"
    by (subst generate_username.simps) (simp add: t1)
  then show ?thesis by (subst generate_username.simps) (simp add: t0)
qed

lemma generate_username_two_names_taken:
  "generate_username ascii_alnum two_names {''alicesmith''} 0 = None"
proof (cases "generate_username ascii_alnum two_names {''alicesmith''} 0")
  case None
  then show ?thesis .
next
  case (Some r)
  from generate_username_Some[OF this] obtain k
    where "try_username ascii_alnum {''alicesmith''} (two_names k) = Some (fst r)" by blast
  moreover have "try_username ascii_alnum {''alicesmith''} (two_names k) = None"
    by (simp add: two_names_def try_username_def ascii_alnum_def USERNAME_RE_match_def less_eq_char_def)
  ultimately show ?thesis by simp
qed

lemma fake_user_name_with_names: "fake_user_name (identity_d (with_names f)) = f"
  by (simp add: with_names_def)

lemma Person_init_with_names:
  assumes "generate_username ascii_alnum f (usernames st) 0 = Some (h, used)"
  shows "\<exists>p. Person_init stock_catalog ascii_alnum (with_names f) st
           = Some (Inr p, \<lparr> idx = idx st + 1, usernames = used \<rparr>)
         \<and> username (ident p) = h \<and> user_id (ident p) = idx st"
proof -
  from assms have g: "generate_username ascii_alnum (fake_user_name (identity_d (with_names f)))
      (usernames st) 0 = Some (h, used)" by (simp add: fake_user_name_with_names)
  from Person_init_completes[OF g] obtain p st' where
    p: "Person_init stock_catalog ascii_alnum (with_names f) st = Some (Inr p, st')" by blast
  from Person_init_registry[OF p] g have f: "idx st' = idx st + 1" "usernames st' = used"
    "user_id (ident p) = idx st" "username (ident p) = h" by auto
  from f(1,2) have "st' = \<lparr> idx = idx st + 1, usernames = used \<rparr>" by simp
  with p have "Person_init stock_catalog ascii_alnum (with_names f) st
           = Some (Inr p, \<lparr> idx = idx st + 1, usernames = used \<rparr>)" by simp
  with f(3,4) show ?thesis by (intro exI[of _ p] conjI)
qed

lemma Person_init_with_names_None:
  assumes "generate_username ascii_alnum f (usernames st) 0 = None"
  shows "Person_init cat ascii_alnum (with_names f) st = None"
proof -
  obtain sd where "randint 1000000 10000000 (r_seed (with_names f)) = Inr sd"
    using randint_total[of 1000000 10000000] by auto
  with assms show ?thesis
    by (simp add: Person_init_def Identity_def Let_def fake_user_name_with_names)
qed

lemma batch_Inr:
  assumes "generate_aiuser_excel cat isalnum num_people draws st = Some (Inr ps, st')"
  shows "int (length ps) = max 0 num_people"
    and "map (user_id \<circ> ident) ps = [1 .. int (length ps)]"
    and "idx st' = 1 + int (length ps)"
    and "distinct (map (username \<circ> ident) ps)"
    and "set (map (username \<circ> ident) ps) \<inter> usernames st = {}"
    and "usernames st' = usernames st \<union> set (map (username \<circ> ident) ps)"
    and "list_all (USERNAME_RE_match \<circ> username \<circ> ident) ps"
proof -
  let ?ds = "map draws [0 ..< nat num_people]"
  from assms have "people_loop cat isalnum ?ds (st\<lparr>idx := 1\<rparr>) = Some (Inr ps, st')"
    by (simp add: generate_aiuser_excel_def)
  from people_loop_Inr[OF this] have f: "length ps = length ?ds"
    "map (user_id \<circ> ident) ps = [1 .. 1 + int (length ?ds) - 1]"
    "idx st' = 1 + int (length ?ds)"
    "distinct (map (username \<circ> ident) ps)"
    "set (map (username \<circ> ident) ps) \<inter> usernames st = {}"
    "usernames st' = usernames st \<union> set (map (username \<circ> ident) ps)"
    "list_all (USERNAME_RE_match \<circ> username \<circ> ident) ps" by simp_all
  from f(1) show "int (length ps) = max 0 num_people" by simp
  from f(1,2) show "map (user_id \<circ> ident) ps = [1 .. int (length ps)]" by simp
  from f(1,3) show "idx st' = 1 + int (length ps)" by simp
  from f(4) show "distinct (map (username \<circ> ident) ps)" .
  from f(5) show "set (map (username \<circ> ident) ps) \<inter> usernames st = {}" .
  from f(6) show "usernames st' = usernames st \<union> set (map (username \<circ> ident) ps)" .
  from f(7) show "list_all (USERNAME_RE_match \<circ> username \<circ> ident) ps" .
qed

lemma upto_max: "[1 .. max 0 n] = [1 .. n]"
  by (cases "0 \<le> n") (simp_all add: max_def)

lemma first_batch_of_two:
  "\<exists>p q. generate_aiuser_excel stock_catalog ascii_alnum 2 batch_draws fresh_registry
      = Some (Inr [p, q], \<lparr> idx = 3, usernames = {''bobjones77'', ''alicesmith''} \<rparr>)
    \<and> username (ident p) = ''alicesmith'' \<and> username (ident q) = ''bobjones77''"
proof -
  have ds: "map batch_draws [0 ..< 2] = [with_names two_names, with_names later_names]"
    by (simp add: batch_draws_def upt_rec)
  let ?st0 = "fresh_registry\<lparr>idx := 1\<rparr>"
  have "generate_username ascii_alnum two_names (usernames ?st0) 0
      = Some (''alicesmith'', {''alicesmith''})"
    using generate_username_two_names by (simp add: fresh_registry_def)
  from Person_init_with_names[OF this] obtain p where
    p: "Person_init stock_catalog ascii_alnum (with_names two_names) ?st0
        = Some (Inr p, \<lparr> idx = 2, usernames = {''alicesmith''} \<rparr>)"
    and hp: "username (ident p) = ''alicesmith''"
    by (auto simp: fresh_registry_def)
  let ?st1 = "\<lparr> idx = 2, usernames = {''alicesmith''} \<rparr>"
  have "generate_username ascii_alnum later_names (usernames ?st1) 0
      = Some (''bobjones77'', {''bobjones77'', ''alicesmith''})"
    using generate_username_later_names_taken by simp
  from Person_init_with_names[OF this] obtain q where
    q: "Person_init stock_catalog ascii_alnum (with_names later_names) ?st1
        = Some (Inr q, \<lparr> idx = 3, usernames = {''bobjones77'', ''alicesmith''} \<rparr>)"
    and hq: "username (ident q) = ''bobjones77''"
    by auto
  from p q have "generate_aiuser_excel stock_catalog ascii_alnum 2 batch_draws fresh_registry
      = Some (Inr [p, q], \<lparr> idx = 3, usernames = {''bobjones77'', ''alicesmith''} \<rparr>)"
    by (simp add: generate_aiuser_excel_def ds)
  with hp hq show ?thesis by blast
qed

lemma second_batch_after_first:
  "\<exists>q. generate_aiuser_excel stock_catalog ascii_alnum 1 second_batch_draws after_first_batch
      = Some (Inr [q], \<lparr> idx = 2, usernames = {''bobjones77'', ''alicesmith''} \<rparr>)
    \<and> username (ident q) = ''bobjones77'' \<and> user_id (ident q) = 1"
proof -
  let ?st = "after_first_batch\<lparr>idx := 1\<rparr>"
  have "generate_username ascii_alnum later_names (usernames ?st) 0
      = Some (''bobjones77'', {''bobjones77'', ''alicesmith''})"
    using generate_username_later_names_taken by (simp add: after_first_batch_def)
  from Person_init_with_names[OF this] obtain q where
    q: "Person_init stock_catalog ascii_alnum (with_names later_names) ?st
        = Some (Inr q, \<lparr> idx = 2, usernames = {''bobjones77'', ''alicesmith''} \<rparr>)"
    and hq: "username (ident q) = ''bobjones77''" "user_id (ident q) = 1"
    by (auto simp: after_first_batch_def)
  from q have "generate_aiuser_excel stock_catalog ascii_alnum 1 second_batch_draws after_first_batch
      = Some (Inr [q], \<lparr> idx = 2, usernames = {''bobjones77'', ''alicesmith''} \<rparr>)"
    by (simp add: generate_aiuser_excel_def second_batch_draws_def)
  with hq show ?thesis by blast
qed

lemma second_batch_fresh:
  "\<exists>q. generate_aiuser_excel stock_catalog ascii_alnum 1 second_batch_draws fresh_registry
      = Some (Inr [q], \<lparr> idx = 2, usernames = {''alicesmith''} \<rparr>)
    \<and> username (ident q) = ''alicesmith'' \<and> user_id (ident q) = 1"
proof -
  let ?st = "fresh_registry\<lparr>idx := 1\<rparr>"
  have "generate_username ascii_alnum later_names (usernames ?st) 0
      = Some (''alicesmith'', {''alicesmith''})"
    using generate_username_later_names_fresh by (simp add: fresh_registry_def)
  from Person_init_with_names[OF this] obtain q where
    q: "Person_init stock_catalog ascii_alnum (with_names later_names) ?st
        = Some (Inr q, \<lparr> idx = 2, usernames = {''alicesmith''} \<rparr>)"
    and hq: "username (ident q) = ''alicesmith''" "user_id (ident q) = 1"
    by (auto simp: fresh_registry_def)
  from q have "generate_aiuser_excel stock_catalog ascii_alnum 1 second_batch_draws fresh_registry
      = Some (Inr [q], \<lparr> idx = 2, usernames = {''alicesmith''} \<rparr>)"
    by (simp add: generate_aiuser_excel_def second_batch_draws_def)
  with hq show ?thesis by blast
qed

lemma first_batch_of_one:
  "\<exists>p. generate_aiuser_excel stock_catalog ascii_alnum 1 batch_draws fresh_registry
      = Some (Inr [p], after_first_batch)
    \<and> username (ident p) = ''alicesmith'' \<and> user_id (ident p) = 1"
proof -
  let ?st = "fresh_registry\<lparr>idx := 1\<rparr>"
  have "generate_username ascii_alnum two_names (usernames ?st) 0
      = Some (''alicesmith'', {''alicesmith''})"
    using generate_username_two_names by (simp add: fresh_registry_def)
  from Person_init_with_names[OF this] obtain p where
    p: "Person_init stock_catalog ascii_alnum (with_names two_names) ?st
        = Some (Inr p, \<lparr> idx = 2, usernames = {''alicesmith''} \<rparr>)"
    and hp: "username (ident p) = ''alicesmith''" "user_id (ident p) = 1"
    by (auto simp: fresh_registry_def)
  from p have "generate_aiuser_excel stock_catalog ascii_alnum 1 batch_draws fresh_registry
      = Some (Inr [p], after_first_batch)"
    by (simp add: generate_aiuser_excel_def batch_draws_def after_first_batch_def)
  with hp show ?thesis by blast
qed

lemma same_batch_again:
  "generate_aiuser_excel stock_catalog ascii_alnum 1 batch_draws after_first_batch = None"
proof -
  have "generate_username ascii_alnum two_names (usernames (after_first_batch\<lparr>idx := 1\<rparr>)) 0 = None"
    using generate_username_two_names_taken by (simp add: after_first_batch_def)
  from Person_init_with_names_None[OF this]
  show ?thesis by (simp add: generate_aiuser_excel_def batch_draws_def)
qed

lemma people_loop_completes:
  "usernames_found isalnum ds (usernames st) \<Longrightarrow>
     \<exists>ps st'. people_loop stock_catalog isalnum ds st = Some (Inr ps, st')"
proof (induction ds arbitrary: st)
  case Nil
  show ?case by simp
next
  case (Cons d ds)
  from Cons.prems obtain h used' where
    g: "generate_username isalnum (fake_user_name (identity_d d)) (usernames st) 0 = Some (h, used')"
    and rest: "usernames_found isalnum ds used'"
    by (auto split: option.splits)
  from Person_init_completes[OF g] obtain p st1 where
    p: "Person_init stock_catalog isalnum d st = Some (Inr p, st1)" by blast
  from Person_init_registry[OF p] g have "usernames st1 = used'" by auto
  with rest have "usernames_found isalnum ds (usernames st1)" by simp
  from Cons.IH[OF this] obtain ps st' where
    "people_loop stock_catalog isalnum ds st1 = Some (Inr ps, st')" by blast
  with p have "people_loop stock_catalog isalnum (d # ds) st = Some (Inr (p # ps), st')" by simp
  then show ?case by blast
qed

lemma people_loop_found:
  "people_loop cat isalnum ds st = Some (Inr ps, st') \<Longrightarrow>
     usernames_found isalnum ds (usernames st)"
proof (induction ds arbitrary: st ps)
  case Nil
  show ?case by simp
next
  case (Cons d ds)
  from Cons.prems obtain p st1 qs where
    p: "Person_init cat isalnum d st = Some (Inr p, st1)"
    and qs: "people_loop cat isalnum ds st1 = Some (Inr qs, st')"
    by (auto split: option.splits sum.splits prod.splits)
  from Person_init_registry[OF p] obtain h where
    g: "generate_username isalnum (fake_user_name (identity_d d)) (usernames st) 0
          = Some (h, usernames st1)" by blast
  from Cons.IH[OF qs] have "usernames_found isalnum ds (usernames st1)" .
  with g show ?case by simp
qed

text \<open>
  A condition on the suppliers alone: the first candidate of every person passes the
  filter, and the handles it gives are new and pairwise distinct.
\<close>

lemma usernames_found_first_candidates:
  "distinct (map (\<lambda>d. take 20 (filter isalnum (fake_user_name (identity_d d) 0))) ds) \<Longrightarrow>
   (\<forall>d \<in> set ds. try_username isalnum {} (fake_user_name (identity_d d) 0) \<noteq> None
       \<and> take 20 (filter isalnum (fake_user_name (identity_d d) 0)) \<notin> used) \<Longrightarrow>
   usernames_found isalnum ds used"
proof (induction ds arbitrary: used)
  case Nil
  show ?case by simp
next
  case (Cons d ds)
  let ?h = "\<lambda>d. take 20 (filter isalnum (fake_user_name (identity_d d) 0))"
  from Cons.prems(2) obtain h0 where
    t0: "try_username isalnum {} (fake_user_name (identity_d d) 0) = Some h0"
    and new: "?h d \<notin> used" by auto
  from try_username_Some[OF t0] have h0: "h0 = ?h d" and ok: "USERNAME_RE_match h0" by blast+
  from t0 have len: "\<not> length (filter isalnum (fake_user_name (identity_d d) 0)) < 5"
    by (auto simp: try_username_def Let_def split: if_splits)
  from len ok new h0 have t: "try_username isalnum used (fake_user_name (identity_d d) 0) = Some (?h d)"
    by (simp add: try_username_def Let_def)
  then have g: "generate_username isalnum (fake_user_name (identity_d d)) used 0
      = Some (?h d, insert (?h d) used)"
    by (subst generate_username.simps) simp
  from Cons.prems(1) have d: "distinct (map ?h ds)" and notin: "?h d \<notin> set (map ?h ds)" by simp_all
  have "\<forall>e \<in> set ds. try_username isalnum {} (fake_user_name (identity_d e) 0) \<noteq> None
       \<and> ?h e \<notin> insert (?h d) used"
  proof
    fix e assume e: "e \<in> set ds"
    with Cons.prems(2) have "try_username isalnum {} (fake_user_name (identity_d e) 0) \<noteq> None"
      and "?h e \<notin> used" by auto
    moreover have "?h e \<noteq> ?h d"
    proof
      assume eq: "?h e = ?h d"
      from e have m: "?h e \<in> ?h ` set ds" by (rule imageI)
      from m[unfolded eq] notin show False by simp
    qed
    ultimately show "try_username isalnum {} (fake_user_name (identity_d e) 0) \<noteq> None
       \<and> ?h e \<notin> insert (?h d) used" by simp
  qed
  from Cons.IH[OF d this] have "usernames_found isalnum ds (insert (?h d) used)" .
  with g show ?case by simp
qed

lemma usernames_found_batch_of_two:
  "usernames_found ascii_alnum (map batch_draws [0 ..< nat 2]) (usernames fresh_registry)"
proof -
  have ds: "map batch_draws [0 ..< 2] = [with_names two_names, with_names later_names]"
    by (simp add: batch_draws_def upt_rec)
  show ?thesis
    by (simp add: ds fake_user_name_with_names fresh_registry_def generate_username_two_names
        generate_username_later_names_taken)
qed

text \<open>
  C6. Over the built-in catalog a batch of \<open>N\<close> persons runs to its end exactly when the
  username loop of each of its persons returns (no other step can fail or run forever);
  and for every batch that runs to its end, the ids of the persons are \<open>1, 2, \<dots>, N\<close> in this
  order (\<open>N\<close> the requested number, none for \<open>N \<le> 0\<close>), and their handles are pairwise
  distinct.
\<close>

theorem batch_ids_and_handles:
  "((\<exists>ps st'. generate_aiuser_excel stock_catalog isalnum num_people draws st = Some (Inr ps, st'))
      \<longleftrightarrow> usernames_found isalnum (map draws [0 ..< nat num_people]) (usernames st))
   \<and> (\<forall>ps st'. generate_aiuser_excel cat isalnum num_people draws st = Some (Inr ps, st') \<longrightarrow>
          int (length ps) = max 0 num_people
          \<and> map (user_id \<circ> ident) ps = [1 .. num_people]
          \<and> distinct (map (username \<circ> ident) ps))"
proof (intro conjI iffI allI impI)
  assume "\<exists>ps st'. generate_aiuser_excel stock_catalog isalnum num_people draws st = Some (Inr ps, st')"
  then obtain ps st' where
    "people_loop stock_catalog isalnum (map draws [0 ..< nat num_people]) (st\<lparr>idx := 1\<rparr>)
       = Some (Inr ps, st')"
    by (auto simp: generate_aiuser_excel_def)
  from people_loop_found[OF this]
  show "usernames_found isalnum (map draws [0 ..< nat num_people]) (usernames st)" by simp
next
  assume "usernames_found isalnum (map draws [0 ..< nat num_people]) (usernames st)"
  then have "usernames_found isalnum (map draws [0 ..< nat num_people]) (usernames (st\<lparr>idx := 1\<rparr>))"
    by simp
  from people_loop_completes[OF this]
  show "\<exists>ps st'. generate_aiuser_excel stock_catalog isalnum num_people draws st = Some (Inr ps, st')"
    by (simp add: generate_aiuser_excel_def)
next
  fix ps st'
  assume b: "generate_aiuser_excel cat isalnum num_people draws st = Some (Inr ps, st')"
  note f = batch_Inr[OF b]
  from f(1) show "int (length ps) = max 0 num_people" .
  from f(1,2) have "map (user_id \<circ> ident) ps = [1 .. max 0 num_people]" by simp
  then show "map (user_id \<circ> ident) ps = [1 .. num_people]" by (simp only: upto_max)
  from f(4) show "distinct (map (username \<circ> ident) ps)" .
qed

theorem batch_ids_and_handles_witness:
  "usernames_found ascii_alnum (map batch_draws [0 ..< nat 2]) (usernames fresh_registry)
   \<and> (\<exists>ps st'. generate_aiuser_excel stock_catalog ascii_alnum 2 batch_draws fresh_registry
          = Some (Inr ps, st')
        \<and> map (user_id \<circ> ident) ps = [1, 2]
        \<and> distinct (map (username \<circ> ident) ps))"
proof -
  note t = batch_ids_and_handles[of ascii_alnum 2 batch_draws fresh_registry stock_catalog]
  from t usernames_found_batch_of_two obtain ps st' where
    b: "generate_aiuser_excel stock_catalog ascii_alnum 2 batch_draws fresh_registry
          = Some (Inr ps, st')" by blast
  have u: "[1 .. 2::int] = [1, 2]" by (simp add: upto_rec1)
  from t b have "map (user_id \<circ> ident) ps = [1 .. 2]" "distinct (map (username \<circ> ident) ps)"
    by blast+
  with u have "map (user_id \<circ> ident) ps = [1, 2]" "distinct (map (username \<circ> ident) ps)"
    by simp_all
  with b have "\<exists>ps st'. generate_aiuser_excel stock_catalog ascii_alnum 2 batch_draws fresh_registry
          = Some (Inr ps, st')
        \<and> map (user_id \<circ> ident) ps = [1, 2]
        \<and> distinct (map (username \<circ> ident) ps)"
    by (intro exI[of _ ps] exI[of _ st'] conjI)
  with usernames_found_batch_of_two show ?thesis by (rule conjI)
qed

text \<open>
  C8 (as the source has it). Every batch starts its ids at 1 again, whatever
  \<^verbatim>\<open>Person.idx\<close> was; \<^verbatim>\<open>Person.usernames\<close> is not reset: the batch only adds its handles to
  the set it finds, and none of its handles is one that was there before.
\<close>

theorem batch_restart:
  assumes "generate_aiuser_excel cat isalnum num_people draws st = Some (Inr ps, st')"
  shows "map (user_id \<circ> ident) ps = [1 .. int (length ps)]
     \<and> idx st' = 1 + int (length ps)
     \<and> usernames st' = usernames st \<union> set (map (username \<circ> ident) ps)
     \<and> set (map (username \<circ> ident) ps) \<inter> usernames st = {}"
proof -
  note b = batch_Inr[OF assms]
  from b(2,3,6,5) show ?thesis by blast
qed

theorem batch_restart_witness:
  "\<exists>ps st'. generate_aiuser_excel stock_catalog ascii_alnum 1 second_batch_draws after_first_batch
       = Some (Inr ps, st')
     \<and> map (user_id \<circ> ident) ps = [1]
     \<and> usernames st' = usernames after_first_batch \<union> set (map (username \<circ> ident) ps)
     \<and> set (map (username \<circ> ident) ps) \<inter> usernames after_first_batch = {}"
proof -
  from second_batch_after_first obtain q where
    b: "generate_aiuser_excel stock_catalog ascii_alnum 1 second_batch_draws after_first_batch
      = Some (Inr [q], \<lparr> idx = 2, usernames = {''bobjones77'', ''alicesmith''} \<rparr>)" by blast
  have "[1 .. 1::int] = [1]" by (simp add: upto_rec1)
  with batch_restart[OF b] have "map (user_id \<circ> ident) [q] = [1]"
    "usernames \<lparr> idx = 2, usernames = {''bobjones77'', ''alicesmith''} \<rparr>
       = usernames after_first_batch \<union> set (map (username \<circ> ident) [q])"
    "set (map (username \<circ> ident) [q]) \<inter> usernames after_first_batch = {}" by simp_all
  with b show ?thesis
    by (intro exI[of _ "[q]"] exI[of _ "\<lparr> idx = 2, usernames = {''bobjones77'', ''alicesmith''} \<rparr>"] conjI)
qed

text \<open>
  C8 fails as stated: after a first batch that issued \<^verbatim>\<open>alicesmith\<close>, a second batch whose
  supplier offers \<^verbatim>\<open>alice.smith\<close> first issues \<^verbatim>\<open>bobjones77\<close>, where a fresh handle set
  gives \<^verbatim>\<open>alicesmith\<close>; and the first batch run once more, on the same candidates, never
  returns.
\<close>

theorem handles_carry_over:
  "batch_state (generate_aiuser_excel stock_catalog ascii_alnum 1 batch_draws fresh_registry)
     = Some after_first_batch
   \<and> map_option (map (username \<circ> ident))
       (batch_people (generate_aiuser_excel stock_catalog ascii_alnum 1 second_batch_draws
          after_first_batch)) = Some [''bobjones77'']
   \<and> map_option (map (username \<circ> ident))
       (batch_people (generate_aiuser_excel stock_catalog ascii_alnum 1 second_batch_draws
          fresh_registry)) = Some [''alicesmith'']
   \<and> generate_aiuser_excel stock_catalog ascii_alnum 1 batch_draws after_first_batch = None"
proof -
  from first_batch_of_one have 1:
    "batch_state (generate_aiuser_excel stock_catalog ascii_alnum 1 batch_draws fresh_registry)
     = Some after_first_batch" by (auto simp: batch_state_def)
  from second_batch_after_first have 2: "map_option (map (username \<circ> ident))
       (batch_people (generate_aiuser_excel stock_catalog ascii_alnum 1 second_batch_draws
          after_first_batch)) = Some [''bobjones77'']" by (auto simp: batch_people_def)
  from second_batch_fresh have 3: "map_option (map (username \<circ> ident))
       (batch_people (generate_aiuser_excel stock_catalog ascii_alnum 1 second_batch_draws
          fresh_registry)) = Some [''alicesmith'']" by (auto simp: batch_people_def)
  from 1 2 3 same_batch_again show ?thesis by blast
qed

end
